theory Spec2Isabelle
  imports Main
begin

unbundle bit_operations_syntax

section \<open>Data model\<close>

text \<open>
  The tool works on the object graph that the binary-format library hands out: a module owns
  types, a type owns methods, a method may own a body, a body is an ordered list of
  references to mutable instruction objects. Instruction objects are shared between the
  bodies and the recorded matches, so they live in an explicit store: a total function from
  references (\<open>addr\<close>) to the current \<open>(OpCode, Operand)\<close> of the object.

  A Python \<open>str\<close> is a list of code points, a \<open>bytes\<close> value a list of numbers below 256.
  Names that are only compared with ASCII constants, and the file path, are kept as
  \<open>string\<close>.
\<close>

type_synonym addr = nat
type_synonym py_str = "nat list"
type_synonym py_bytes = "nat list"

definition str :: "string \<Rightarrow> py_str" where
  "str s = map of_char s"

datatype opcode = Call | Callvirt | Ldstr | Nop | OtherOpCode nat

text \<open>
  The operand of an instruction. \<open>MemberRef\<close> and \<open>MethodDef\<close> are the two classes of callee
  reference; both expose \<open>DeclaringType.FullName\<close> and \<open>Name\<close>, in that order. \<open>Str\<close> is the text
  of a string literal, \<open>NoOperand\<close> is the null operand.
\<close>

datatype operand =
    MemberRef string string
  | MethodDef string string
  | Str py_str
  | NoOperand

record instruction =
  OpCode :: opcode
  Operand :: operand

record meth =
  MethodName :: string
  HasBody :: bool
  Body :: "addr list option"

record type_def =
  TypeName :: string
  Methods :: "meth list"

type_synonym match = "meth \<times> addr \<times> addr"

datatype exn =
    ArgumentOutOfRangeException
  | IndexError
  | AttributeError
  | TypeError
  | ValueError
  | Base64Error
  | UnicodeDecodeError

text \<open>
  The decoder object (\<open>self\<close>) together with the instruction store and the error log that
  its methods read and write.
\<close>

record state =
  file_path :: string
  file_module :: "type_def list"
  base64_calls :: "match list"
  heap :: "addr \<Rightarrow> instruction"
  error_log :: "(operand \<times> exn) list"

text \<open>
  \<open>__init__\<close>: the path, the loaded module and an empty match list. Loading is the library's
  work; its result (the types and the instruction store) is a parameter.
\<close>

definition init :: "string \<Rightarrow> type_def list \<Rightarrow> (addr \<Rightarrow> instruction) \<Rightarrow> state" where
  "init path types h =
     \<lparr>file_path = path, file_module = types, base64_calls = [], heap = h, error_log = []\<rparr>"

section \<open>Scanner\<close>

text \<open>
  \<open>Instructions.IndexOf(insn)\<close>: the position of the first reference equal to \<open>insn\<close>, or
  \<open>-1\<close> when there is none.
\<close>

fun index_from :: "addr list \<Rightarrow> addr \<Rightarrow> nat \<Rightarrow> int" where
  "index_from [] a i = - 1"
| "index_from (x # xs) a i = (if x = a then int i else index_from xs a (Suc i))"

definition IndexOf :: "addr list \<Rightarrow> addr \<Rightarrow> int" where
  "IndexOf xs a = index_from xs a 0"

text \<open>
  \<open>Instructions[i]\<close>. The source computes \<open>i\<close> as \<open>IndexOf(insn) - 1\<close>, which is \<open>-1\<close> for the
  first instruction of a body. What a negative index does is decided by the host's
  sequence type, not by this program, so it is a parameter: a Python sequence counts
  from the end (\<open>WrapsNegative\<close>), the library's list indexer raises
  (\<open>RaisesOutOfRange\<close>).
\<close>

datatype host = WrapsNegative | RaisesOutOfRange

definition getitem :: "host \<Rightarrow> addr list \<Rightarrow> int \<Rightarrow> exn + addr" where
  "getitem hst xs i =
     (let n = int (length xs) in
      if 0 \<le> i \<and> i < n then Inr (xs ! nat i)
      else (case hst of
              RaisesOutOfRange \<Rightarrow> Inl ArgumentOutOfRangeException
            | WrapsNegative \<Rightarrow>
                if - n \<le> i \<and> i < 0 then Inr (xs ! nat (n + i)) else Inl IndexError))"

text \<open>
  A Python \<open>for\<close> loop whose body may raise: the state is threaded through the
  iterations in order and the first exception leaves the loop.
\<close>

fun for_each :: "('x \<Rightarrow> state \<Rightarrow> exn + state) \<Rightarrow> 'x list \<Rightarrow> state \<Rightarrow> exn + state" where
  "for_each body [] st = Inr st"
| "for_each body (x # xs) st =
     (case body x st of
        Inl e \<Rightarrow> Inl e
      | Inr st' \<Rightarrow> for_each body xs st')"

text \<open>The body of the innermost loop of \<open>identify_base64_calls\<close> (lines 44 to 51).\<close>

definition scan_insn :: "host \<Rightarrow> meth \<Rightarrow> addr list \<Rightarrow> addr \<Rightarrow> state \<Rightarrow> exn + state" where
  "scan_insn hst m instrs insn st =
     (if OpCode (heap st insn) = Call then
        (case Operand (heap st insn) of
           MemberRef declaring name \<Rightarrow>
             if declaring = ''System.Convert'' \<and> name = ''FromBase64String'' then
               (case getitem hst instrs (IndexOf instrs insn - 1) of
                  Inl e \<Rightarrow> Inl e
                | Inr prev_insn \<Rightarrow>
                    if OpCode (heap st prev_insn) = Ldstr
                    then Inr (st\<lparr>base64_calls := base64_calls st @ [(m, insn, prev_insn)]\<rparr>)
                    else Inr st)
             else Inr st
         | _ \<Rightarrow> Inr st)
      else Inr st)"

text \<open>
  One method (lines 40 to 43). A method without a body is skipped before \<open>method.Body\<close> is
  read; reading \<open>.Instructions\<close> of a null body raises.
\<close>

definition scan_method :: "host \<Rightarrow> meth \<Rightarrow> state \<Rightarrow> exn + state" where
  "scan_method hst m st =
     (if \<not> HasBody m then Inr st
      else (case Body m of
              None \<Rightarrow> Inl AttributeError
            | Some instrs \<Rightarrow> for_each (scan_insn hst m instrs) instrs st))"

definition identify_base64_calls :: "host \<Rightarrow> state \<Rightarrow> exn + state" where
  "identify_base64_calls hst st =
     for_each (\<lambda>module_type. for_each (scan_method hst) (Methods module_type))
       (file_module st) st"

section \<open>Decoding\<close>

text \<open>
  \<open>base64.b64decode(s)\<close> with its default \<open>validate=False\<close>, as the standard library defines
  it: a \<open>str\<close> argument must be ASCII (\<open>ValueError\<close> otherwise), any other non-bytes object
  is a \<open>TypeError\<close>, and the bytes go through the lenient decoder, which skips every
  character outside the alphabet, stops at a complete padding and raises when the data
  characters do not fill their last group of four.
\<close>

definition table_a2b_base64 :: "nat \<Rightarrow> nat option" where
  "table_a2b_base64 c =
     (if 65 \<le> c \<and> c \<le> 90 then Some (c - 65)
      else if 97 \<le> c \<and> c \<le> 122 then Some (c - 71)
      else if 48 \<le> c \<and> c \<le> 57 then Some (c + 4)
      else if c = 43 then Some 62
      else if c = 47 then Some 63
      else None)"

fun a2b_base64 :: "nat list \<Rightarrow> nat \<Rightarrow> nat \<Rightarrow> nat \<Rightarrow> py_bytes \<Rightarrow> exn + py_bytes" where
  "a2b_base64 [] quad_pos leftchar pads out =
     (if quad_pos = 0 then Inr out else Inl Base64Error)"
| "a2b_base64 (c # cs) quad_pos leftchar pads out =
     (if c = 61 then
        (if 2 \<le> quad_pos then
           (if 4 \<le> quad_pos + (pads + 1) then Inr out
            else a2b_base64 cs quad_pos leftchar (pads + 1) out)
         else a2b_base64 cs quad_pos leftchar pads out)
      else
        (case table_a2b_base64 c of
           None \<Rightarrow> a2b_base64 cs quad_pos leftchar pads out
         | Some v \<Rightarrow>
             if quad_pos = 0 then a2b_base64 cs 1 v 0 out
             else if quad_pos = 1 then
               a2b_base64 cs 2 (v AND 15) 0
                 (out @ [(push_bit 2 leftchar OR drop_bit 4 v) mod 256])
             else if quad_pos = 2 then
               a2b_base64 cs 3 (v AND 3) 0
                 (out @ [(push_bit 4 leftchar OR drop_bit 2 v) mod 256])
             else a2b_base64 cs 0 0 0 (out @ [(push_bit 6 leftchar OR v) mod 256])))"

definition b64decode :: "operand \<Rightarrow> exn + py_bytes" where
  "b64decode x =
     (case x of
        Str s \<Rightarrow> if list_all (\<lambda>c. c < 128) s then a2b_base64 s 0 0 0 [] else Inl ValueError
      | _ \<Rightarrow> Inl TypeError)"

text \<open>
  \<open>decoded_bytes.decode('utf-8')\<close>: the strict decoder. It accepts exactly the well-formed
  sequences (no overlong form, no surrogate, nothing above U+10FFFF) and raises on
  everything else.
\<close>

definition cont :: "nat \<Rightarrow> bool" where
  "cont b = (128 \<le> b \<and> b \<le> 191)"

text \<open>The range of the second byte, which depends on the lead byte.\<close>

definition second_ok :: "nat \<Rightarrow> nat \<Rightarrow> bool" where
  "second_ok b0 b1 =
     ((if b0 = 224 then 160 else if b0 = 240 then 144 else 128) \<le> b1 \<and>
      b1 \<le> (if b0 = 237 then 159 else if b0 = 244 then 143 else 191))"

definition cons_ok :: "nat \<Rightarrow> exn + py_str \<Rightarrow> exn + py_str" where
  "cons_ok c r = (case r of Inl e \<Rightarrow> Inl e | Inr cs \<Rightarrow> Inr (c # cs))"

fun utf8_decode :: "py_bytes \<Rightarrow> exn + py_str" where
  "utf8_decode [] = Inr []"
| "utf8_decode (b0 # bs) =
     (if b0 < 128 then cons_ok b0 (utf8_decode bs)
      else if 194 \<le> b0 \<and> b0 \<le> 223 then
        (case bs of
           b1 # r \<Rightarrow>
             if cont b1 then cons_ok ((b0 - 192) * 64 + (b1 - 128)) (utf8_decode r)
             else Inl UnicodeDecodeError
         | _ \<Rightarrow> Inl UnicodeDecodeError)
      else if 224 \<le> b0 \<and> b0 \<le> 239 then
        (case bs of
           b1 # b2 # r \<Rightarrow>
             if second_ok b0 b1 \<and> cont b2
             then cons_ok ((b0 - 224) * 4096 + (b1 - 128) * 64 + (b2 - 128)) (utf8_decode r)
             else Inl UnicodeDecodeError
         | _ \<Rightarrow> Inl UnicodeDecodeError)
      else if 240 \<le> b0 \<and> b0 \<le> 244 then
        (case bs of
           b1 # b2 # b3 # r \<Rightarrow>
             if second_ok b0 b1 \<and> cont b2 \<and> cont b3
             then cons_ok ((b0 - 240) * 262144 + (b1 - 128) * 4096 + (b2 - 128) * 64 + (b3 - 128))
                    (utf8_decode r)
             else Inl UnicodeDecodeError
         | _ \<Rightarrow> Inl UnicodeDecodeError)
      else Inl UnicodeDecodeError)"

section \<open>Patcher\<close>

text \<open>
  The body of the loop of \<open>decode_base64_strings\<close> (lines 62 to 71). Every exception of
  the two decoding steps is caught and logged with the operand that was read; the
  appends and the three assignments happen only after both steps succeeded.
\<close>

definition decode_one ::
  "match \<Rightarrow> (operand \<times> py_str) list \<times> state \<Rightarrow> (operand \<times> py_str) list \<times> state" where
  "decode_one mt acc =
     (case mt of (m, call_insn, str_insn) \<Rightarrow>
      case acc of (decoded_strings, st) \<Rightarrow>
        (let base64_str = Operand (heap st str_insn) in
         case b64decode base64_str of
           Inl e \<Rightarrow> (decoded_strings, st\<lparr>error_log := error_log st @ [(base64_str, e)]\<rparr>)
         | Inr decoded_bytes \<Rightarrow>
             (case utf8_decode decoded_bytes of
                Inl e \<Rightarrow> (decoded_strings, st\<lparr>error_log := error_log st @ [(base64_str, e)]\<rparr>)
              | Inr decoded_str \<Rightarrow>
                  (let h1 = (heap st)(str_insn := (heap st str_insn)\<lparr>Operand := Str decoded_str\<rparr>);
                       h2 = h1(str_insn := (h1 str_insn)\<lparr>OpCode := Ldstr\<rparr>);
                       h3 = h2(call_insn := (h2 call_insn)\<lparr>OpCode := Nop\<rparr>)
                   in (decoded_strings @ [(base64_str, decoded_str)], st\<lparr>heap := h3\<rparr>)))))"

fun decode_loop ::
  "match list \<Rightarrow> (operand \<times> py_str) list \<times> state \<Rightarrow> (operand \<times> py_str) list \<times> state" where
  "decode_loop [] acc = acc"
| "decode_loop (mt # rest) acc = decode_loop rest (decode_one mt acc)"

definition decode_base64_strings :: "state \<Rightarrow> (operand \<times> py_str) list \<times> state" where
  "decode_base64_strings st = decode_loop (base64_calls st) ([], st)"

section \<open>Saving and the main program\<close>

text \<open>\<open>s.rsplit(sep, 1)\<close> for a one-character separator: split at its last occurrence.\<close>

definition rsplit1 :: "char \<Rightarrow> string \<Rightarrow> string list" where
  "rsplit1 sep s =
     (if sep \<in> set s
      then [rev (tl (dropWhile (\<lambda>c. c \<noteq> sep) (rev s))), rev (takeWhile (\<lambda>c. c \<noteq> sep) (rev s))]
      else [s])"

text \<open>
  \<open>save_module\<close> (lines 84 to 91): the name of the output file, which is also what the
  library's writer is called with.
\<close>

definition save_module :: "state \<Rightarrow> string" where
  "save_module st =
     (let split_name = rsplit1 CHR ''.'' (file_path st) in
      if length split_name = 1 then split_name ! 0 @ ''_decoded.exe''
      else split_name ! 0 @ ''_decoded.'' @ split_name ! 1)"

datatype event =
    PrintTable "(operand \<times> py_str) list"
  | PrintCount nat
  | ModuleWrite string
  | PrintSaved string

text \<open>
  \<open>main\<close> from the construction of the decoder on (lines 108 to 119); the argument and
  file checks before it only decide whether this part runs. The result is what the run
  printed and wrote, in order, and the final state.
\<close>

definition main :: "host \<Rightarrow> string \<Rightarrow> type_def list \<Rightarrow> (addr \<Rightarrow> instruction) \<Rightarrow> exn + event list \<times> state" where
  "main hst path types h =
     (case identify_base64_calls hst (init path types h) of
        Inl e \<Rightarrow> Inl e
      | Inr st1 \<Rightarrow>
          (case decode_base64_strings st1 of
             (decoded_strings, st2) \<Rightarrow>
               if decoded_strings \<noteq> [] then
                 (let new_file_path = save_module st2 in
                  Inr ([PrintTable decoded_strings, PrintCount (length decoded_strings),
                        ModuleWrite new_file_path, PrintSaved new_file_path], st2))
               else Inr ([], st2)))"

section \<open>The scan as a function of the store\<close>

text \<open>
  The scanner only reads the instruction store and only appends to \<open>base64_calls\<close>. The
  matches one scan appends are therefore a function of the module and the store;
  \<open>found\<close> is that function, built level by level like the loops (\<open>collect\<close> is the
  loop). The innermost level is the scanner's own loop body, run on a decoder with no
  matches yet.
\<close>

definition fresh :: "(addr \<Rightarrow> instruction) \<Rightarrow> state" where
  "fresh h = init [] [] h"

definition add_calls :: "state \<Rightarrow> match list \<Rightarrow> state" where
  "add_calls st ms = st\<lparr>base64_calls := base64_calls st @ ms\<rparr>"

definition then_add :: "state \<Rightarrow> exn + match list \<Rightarrow> exn + state" where
  "then_add st r = (case r of Inl e \<Rightarrow> Inl e | Inr ms \<Rightarrow> Inr (add_calls st ms))"

fun collect :: "('x \<Rightarrow> 'h \<Rightarrow> exn + match list) \<Rightarrow> 'x list \<Rightarrow> 'h \<Rightarrow> exn + match list" where
  "collect g [] h = Inr []"
| "collect g (x # xs) h =
     (case g x h of
        Inl e \<Rightarrow> Inl e
      | Inr ms \<Rightarrow> (case collect g xs h of Inl e \<Rightarrow> Inl e | Inr ms' \<Rightarrow> Inr (ms @ ms')))"

definition found_insn :: "host \<Rightarrow> meth \<Rightarrow> addr list \<Rightarrow> addr \<Rightarrow> (addr \<Rightarrow> instruction) \<Rightarrow> exn + match list" where
  "found_insn hst m instrs insn h =
     (case scan_insn hst m instrs insn (fresh h) of
        Inl e \<Rightarrow> Inl e | Inr b \<Rightarrow> Inr (base64_calls b))"

definition found_method :: "host \<Rightarrow> meth \<Rightarrow> (addr \<Rightarrow> instruction) \<Rightarrow> exn + match list" where
  "found_method hst m h =
     (if \<not> HasBody m then Inr []
      else (case Body m of
              None \<Rightarrow> Inl AttributeError
            | Some instrs \<Rightarrow> collect (found_insn hst m instrs) instrs h))"

definition found :: "host \<Rightarrow> type_def list \<Rightarrow> (addr \<Rightarrow> instruction) \<Rightarrow> exn + match list" where
  "found hst types h = collect (\<lambda>t. collect (found_method hst) (Methods t)) types h"

section \<open>The matches the design asks for\<close>

text \<open>
  \<open>is_target\<close> is the test the scanner makes on an instruction; \<open>names_target\<close> is the
  test by declaring type and name alone, whatever class the callee reference has.
  \<open>expected_matches\<close> walks every body of the module in order and carries the previous
  instruction along: a target call right after a string-literal load is a match, and the
  first instruction of a body has no previous one. \<open>scannable\<close> holds of a method that has
  no body, or whose body is present, lists each instruction object once and does not
  start with a target call.
\<close>

fun callee_of :: "operand \<Rightarrow> (string \<times> string) option" where
  "callee_of (MemberRef declaring name) = Some (declaring, name)"
| "callee_of (MethodDef declaring name) = Some (declaring, name)"
| "callee_of _ = None"

definition names_target :: "instruction \<Rightarrow> bool" where
  "names_target i =
     (OpCode i = Call \<and> callee_of (Operand i) = Some (''System.Convert'', ''FromBase64String''))"

definition is_target :: "instruction \<Rightarrow> bool" where
  "is_target i =
     (OpCode i = Call \<and> Operand i = MemberRef ''System.Convert'' ''FromBase64String'')"

definition body_of :: "meth \<Rightarrow> addr list" where
  "body_of m = (if HasBody m then (case Body m of Some instrs \<Rightarrow> instrs | None \<Rightarrow> []) else [])"

fun expected_in_body ::
  "(instruction \<Rightarrow> bool) \<Rightarrow> meth \<Rightarrow> (addr \<Rightarrow> instruction) \<Rightarrow> addr option \<Rightarrow> addr list \<Rightarrow> match list" where
  "expected_in_body tgt m h prev [] = []"
| "expected_in_body tgt m h prev (insn # rest) =
     (case prev of
        None \<Rightarrow> []
      | Some prev_insn \<Rightarrow>
          if tgt (h insn) \<and> OpCode (h prev_insn) = Ldstr then [(m, insn, prev_insn)] else [])
     @ expected_in_body tgt m h (Some insn) rest"

definition expected_matches ::
  "(instruction \<Rightarrow> bool) \<Rightarrow> type_def list \<Rightarrow> (addr \<Rightarrow> instruction) \<Rightarrow> match list" where
  "expected_matches tgt types h =
     concat (map (\<lambda>t. concat (map (\<lambda>m. expected_in_body tgt m h None (body_of m)) (Methods t))) types)"

definition scannable :: "(addr \<Rightarrow> instruction) \<Rightarrow> meth \<Rightarrow> bool" where
  "scannable h m =
     (if HasBody m then
        (case Body m of
           None \<Rightarrow> False
         | Some instrs \<Rightarrow>
             distinct instrs \<and>
             (case instrs of [] \<Rightarrow> True | insn # rest \<Rightarrow> \<not> is_target (h insn)))
      else True)"

text \<open>
  The invariant of a recorded match in the data model: the call is a target call and
  the literal is a string-literal load standing immediately before it in the body of
  the match's method.
\<close>

fun adjacent :: "addr list \<Rightarrow> addr \<Rightarrow> addr \<Rightarrow> bool" where
  "adjacent (x # y # rest) a b = ((x = a \<and> y = b) \<or> adjacent (y # rest) a b)"
| "adjacent _ a b = False"

fun followed_by_target :: "(addr \<Rightarrow> instruction) \<Rightarrow> addr list \<Rightarrow> addr \<Rightarrow> bool" where
  "followed_by_target h (x # y # rest) a =
     ((x = a \<and> is_target (h y)) \<or> followed_by_target h (y # rest) a)"
| "followed_by_target h _ a = False"

fun recorded :: "(addr \<Rightarrow> instruction) \<Rightarrow> match \<Rightarrow> bool" where
  "recorded h (m, call_insn, str_insn) =
     (is_target (h call_insn) \<and> OpCode (h str_insn) = Ldstr \<and>
      adjacent (body_of m) str_insn call_insn)"

text \<open>
  The instruction objects of a module, and the instruction that the index arithmetic of
  the scanner picks as the previous one (position \<open>IndexOf - 1\<close>, modulo the length).
\<close>

definition all_insns :: "type_def list \<Rightarrow> addr list" where
  "all_insns types = concat (map (\<lambda>t. concat (map body_of (Methods t))) types)"

fun call_of :: "match \<Rightarrow> addr" where
  "call_of (m, call_insn, str_insn) = call_insn"

fun lit_of :: "match \<Rightarrow> addr" where
  "lit_of (m, call_insn, str_insn) = str_insn"

definition prev_of :: "addr list \<Rightarrow> addr \<Rightarrow> addr" where
  "prev_of instrs a = instrs ! nat ((IndexOf instrs a - 1) mod int (length instrs))"

section \<open>The outcome of the patcher\<close>

text \<open>
  \<open>decode_text\<close> is the two decoding steps in a row and \<open>patch\<close> the three assignments of
  a successful iteration. For a store \<open>h\<close> and a list of matches, \<open>successes\<close> are the
  pairs and \<open>failures\<close> the log entries that the literals in \<open>h\<close> give, in the order of the
  matches. \<open>slots_of\<close> lists the instructions a list of matches refers to, and a match is
  \<open>changed\<close> between two stores when one of its two instructions differs.
\<close>

definition decode_text :: "operand \<Rightarrow> exn + py_str" where
  "decode_text x = (case b64decode x of Inl e \<Rightarrow> Inl e | Inr decoded_bytes \<Rightarrow> utf8_decode decoded_bytes)"

definition patch :: "(addr \<Rightarrow> instruction) \<Rightarrow> addr \<Rightarrow> addr \<Rightarrow> py_str \<Rightarrow> addr \<Rightarrow> instruction" where
  "patch h call_insn str_insn decoded_str =
     (let h1 = h(str_insn := \<lparr>OpCode = Ldstr, Operand = Str decoded_str\<rparr>)
      in h1(call_insn := (h1 call_insn)\<lparr>OpCode := Nop\<rparr>))"

fun slots :: "match \<Rightarrow> addr list" where
  "slots (m, call_insn, str_insn) = [call_insn, str_insn]"

definition slots_of :: "match list \<Rightarrow> addr list" where
  "slots_of ms = concat (map slots ms)"

fun decodes :: "(addr \<Rightarrow> instruction) \<Rightarrow> match \<Rightarrow> bool" where
  "decodes h (m, call_insn, str_insn) =
     (case decode_text (Operand (h str_insn)) of Inl e \<Rightarrow> False | Inr t \<Rightarrow> True)"

fun success :: "(addr \<Rightarrow> instruction) \<Rightarrow> match \<Rightarrow> (operand \<times> py_str) list" where
  "success h (m, call_insn, str_insn) =
     (case decode_text (Operand (h str_insn)) of
        Inl e \<Rightarrow> [] | Inr t \<Rightarrow> [(Operand (h str_insn), t)])"

fun failure :: "(addr \<Rightarrow> instruction) \<Rightarrow> match \<Rightarrow> (operand \<times> exn) list" where
  "failure h (m, call_insn, str_insn) =
     (case decode_text (Operand (h str_insn)) of
        Inl e \<Rightarrow> [(Operand (h str_insn), e)] | Inr t \<Rightarrow> [])"

definition successes :: "(addr \<Rightarrow> instruction) \<Rightarrow> match list \<Rightarrow> (operand \<times> py_str) list" where
  "successes h ms = concat (map (success h) ms)"

definition failures :: "(addr \<Rightarrow> instruction) \<Rightarrow> match list \<Rightarrow> (operand \<times> exn) list" where
  "failures h ms = concat (map (failure h) ms)"

fun changed :: "(addr \<Rightarrow> instruction) \<Rightarrow> (addr \<Rightarrow> instruction) \<Rightarrow> match \<Rightarrow> bool" where
  "changed h h' (m, call_insn, str_insn) =
     (h' call_insn \<noteq> h call_insn \<or> h' str_insn \<noteq> h str_insn)"

text \<open>
  A character counts for the base64 step when it is in the alphabet or is the padding
  sign (code 61).
\<close>

definition significant :: "nat \<Rightarrow> bool" where
  "significant c = (case table_a2b_base64 c of Some v \<Rightarrow> True | None \<Rightarrow> c = 61)"

section \<open>The output name the design asks for\<close>

text \<open>
  The sibling of the input file: the same directory, the stem of the file name followed
  by \<open>_decoded\<close>, and the extension of the file name, or \<open>exe\<close> when it has none. The
  directory ends at the last \<open>/\<close> of the path.
\<close>

definition dirname :: "string \<Rightarrow> string" where
  "dirname path = rev (dropWhile (\<lambda>c. c \<noteq> CHR ''/'') (rev path))"

definition basename :: "string \<Rightarrow> string" where
  "basename path = rev (takeWhile (\<lambda>c. c \<noteq> CHR ''/'') (rev path))"

definition decoded_name_spec :: "string \<Rightarrow> string" where
  "decoded_name_spec path =
     (let parts = rsplit1 CHR ''.'' (basename path);
          stem = parts ! 0;
          extension = (if length parts = 1 then ''exe'' else parts ! 1)
      in dirname path @ stem @ ''_decoded.'' @ extension)"

section \<open>Example modules\<close>

text \<open>
  \<open>hello_types\<close> with \<open>hello_heap\<close> is the body
  \<open>[Ldstr "SGVsbG8=", Call Convert.FromBase64String]\<close>; \<open>junk_heap\<close> has the literal
  \<open>"not-base64!!"\<close> and \<open>spaced_heap\<close> the literal \<open>"SGVs bG8="\<close> in its place, and
  \<open>local_heap\<close> has a call whose operand is a method definition. \<open>boundary_types\<close> adds a
  second method whose body starts with the target call and ends with a literal.
  \<open>mixed_method\<close> has two call sites, of which the first decodes, and a literal that no
  call follows; \<open>extern_method\<close> has no body. The \<open>_scanned\<close> states are the decoders
  after one scan.
\<close>

definition target :: operand where
  "target = MemberRef ''System.Convert'' ''FromBase64String''"

definition blank :: "addr \<Rightarrow> instruction" where
  "blank = (\<lambda>a. \<lparr>OpCode = Nop, Operand = NoOperand\<rparr>)"

definition hello_method :: meth where
  "hello_method = \<lparr>MethodName = ''Main'', HasBody = True, Body = Some [0, 1]\<rparr>"

definition hello_types :: "type_def list" where
  "hello_types = [\<lparr>TypeName = ''Program'', Methods = [hello_method]\<rparr>]"

definition hello_heap :: "addr \<Rightarrow> instruction" where
  "hello_heap = blank
     (0 := \<lparr>OpCode = Ldstr, Operand = Str (str ''SGVsbG8='')\<rparr>,
      1 := \<lparr>OpCode = Call, Operand = target\<rparr>)"

definition junk_heap :: "addr \<Rightarrow> instruction" where
  "junk_heap = blank
     (0 := \<lparr>OpCode = Ldstr, Operand = Str (str ''not-base64!!'')\<rparr>,
      1 := \<lparr>OpCode = Call, Operand = target\<rparr>)"

definition spaced_heap :: "addr \<Rightarrow> instruction" where
  "spaced_heap = blank
     (0 := \<lparr>OpCode = Ldstr, Operand = Str (str ''SGVs bG8='')\<rparr>,
      1 := \<lparr>OpCode = Call, Operand = target\<rparr>)"

definition local_heap :: "addr \<Rightarrow> instruction" where
  "local_heap = blank
     (0 := \<lparr>OpCode = Ldstr, Operand = Str (str ''SGVsbG8='')\<rparr>,
      1 := \<lparr>OpCode = Call, Operand = MethodDef ''System.Convert'' ''FromBase64String''\<rparr>)"

definition extern_method :: meth where
  "extern_method = \<lparr>MethodName = ''GetTickCount'', HasBody = False, Body = None\<rparr>"

definition init_method :: meth where
  "init_method = \<lparr>MethodName = ''Init'', HasBody = True, Body = Some [2, 3]\<rparr>"

definition boundary_types :: "type_def list" where
  "boundary_types = [\<lparr>TypeName = ''Program'', Methods = [hello_method, init_method]\<rparr>]"

definition boundary_heap :: "addr \<Rightarrow> instruction" where
  "boundary_heap = hello_heap
     (2 := \<lparr>OpCode = Call, Operand = target\<rparr>,
      3 := \<lparr>OpCode = Ldstr, Operand = Str (str ''QUJD'')\<rparr>)"

definition mixed_method :: meth where
  "mixed_method = \<lparr>MethodName = ''Run'', HasBody = True, Body = Some [0, 1, 2, 3, 4]\<rparr>"

definition mixed_heap :: "addr \<Rightarrow> instruction" where
  "mixed_heap = blank
     (0 := \<lparr>OpCode = Ldstr, Operand = Str (str ''SGVsbG8='')\<rparr>,
      1 := \<lparr>OpCode = Call, Operand = target\<rparr>,
      2 := \<lparr>OpCode = Ldstr, Operand = Str (str ''not-base64!!'')\<rparr>,
      3 := \<lparr>OpCode = Call, Operand = target\<rparr>,
      4 := \<lparr>OpCode = Ldstr, Operand = Str (str ''QUJD'')\<rparr>)"

definition hello_scanned :: state where
  "hello_scanned = (init ''/t/a.exe'' hello_types hello_heap)\<lparr>base64_calls := [(hello_method, 1, 0)]\<rparr>"

definition junk_scanned :: state where
  "junk_scanned = (init ''/t/a.exe'' hello_types junk_heap)\<lparr>base64_calls := [(hello_method, 1, 0)]\<rparr>"

definition spaced_scanned :: state where
  "spaced_scanned = (init ''/t/a.exe'' hello_types spaced_heap)\<lparr>base64_calls := [(hello_method, 1, 0)]\<rparr>"

definition mixed_scanned :: state where
  "mixed_scanned =
     (init ''/t/a.exe'' [\<lparr>TypeName = ''Program'', Methods = [mixed_method]\<rparr>] mixed_heap)
       \<lparr>base64_calls := [(mixed_method, 1, 0), (mixed_method, 3, 2)]\<rparr>"

section \<open>Properties of the scanner\<close>

subsection \<open>A scan appends what it finds\<close>

lemma fresh_simps [simp]: "heap (fresh h) = h" "base64_calls (fresh h) = []"
  by (simp_all add: fresh_def init_def)

lemma add_calls_simps [simp]:
  "heap (add_calls st ms) = heap st"
  "base64_calls (add_calls st ms) = base64_calls st @ ms"
  "error_log (add_calls st ms) = error_log st"
  "file_module (add_calls st ms) = file_module st"
  "file_path (add_calls st ms) = file_path st"
  "add_calls st [] = st"
  "add_calls (add_calls st ms) ms' = add_calls st (ms @ ms')"
  by (simp_all add: add_calls_def)

lemma then_add_simps [simp]:
  "then_add st (Inl e) = Inl e"
  "then_add st (Inr ms) = Inr (add_calls st ms)"
  by (simp_all add: then_add_def)

text \<open>
  A loop whose body appends what a function of the store finds appends what the
  function finds for each element in turn, or raises where that function first fails.
\<close>

lemma for_each_collect:
  assumes "\<And>x st. body x st = then_add st (g x (heap st))"
  shows "for_each body xs st = then_add st (collect g xs (heap st))"
proof (induction xs arbitrary: st)
  case Nil
  show ?case by simp
next
  case (Cons x xs)
  have step: "body x st = then_add st (g x (heap st))"
    by (rule assms)
  show ?case
  proof (cases "g x (heap st)")
    case (Inl e)
    with step show ?thesis by simp
  next
    case (Inr ms)
    with step have "for_each body (x # xs) st = for_each body xs (add_calls st ms)"
      by simp
    also have "\<dots> = then_add (add_calls st ms) (collect g xs (heap st))"
      using Cons.IH [of "add_calls st ms"] by simp
    finally show ?thesis
      using Inr by (cases "collect g xs (heap st)") simp_all
  qed
qed

lemma scan_insn_found:
  "scan_insn hst m instrs insn st = then_add st (found_insn hst m instrs insn (heap st))"
  by (simp add: scan_insn_def found_insn_def add_calls_def
      split: operand.splits sum.splits)

lemma scan_method_found:
  "scan_method hst m st = then_add st (found_method hst m (heap st))"
proof -
  have "for_each (scan_insn hst m instrs) instrs st =
        then_add st (collect (found_insn hst m instrs) instrs (heap st))" for instrs
    by (rule for_each_collect) (rule scan_insn_found)
  then show ?thesis
    by (simp add: scan_method_def found_method_def split: option.splits)
qed

lemma identify_base64_calls_found:
  "identify_base64_calls hst st = then_add st (found hst (file_module st) (heap st))"
  unfolding identify_base64_calls_def found_def
  by (rule for_each_collect) (rule for_each_collect [OF scan_method_found])

subsection \<open>The examples, evaluated\<close>

lemma hello_scan:
  "identify_base64_calls hst (init p hello_types hello_heap) =
     Inr ((init p hello_types hello_heap)\<lparr>base64_calls := [(hello_method, 1, 0)]\<rparr>)"
  by (simp add: identify_base64_calls_def init_def hello_types_def hello_method_def
      scan_method_def scan_insn_def hello_heap_def target_def IndexOf_def getitem_def)

lemma junk_scan:
  "identify_base64_calls hst (init p hello_types junk_heap) =
     Inr ((init p hello_types junk_heap)\<lparr>base64_calls := [(hello_method, 1, 0)]\<rparr>)"
  by (simp add: identify_base64_calls_def init_def hello_types_def hello_method_def
      scan_method_def scan_insn_def junk_heap_def target_def IndexOf_def getitem_def)

lemma spaced_scan:
  "identify_base64_calls hst (init ''/t/a.exe'' hello_types spaced_heap) = Inr spaced_scanned"
  by (simp add: identify_base64_calls_def init_def hello_types_def hello_method_def
      scan_method_def scan_insn_def spaced_heap_def target_def IndexOf_def getitem_def
      spaced_scanned_def)

lemma mixed_scan:
  "identify_base64_calls hst
     (init ''/t/a.exe'' [\<lparr>TypeName = ''Program'', Methods = [mixed_method]\<rparr>] mixed_heap) =
   Inr mixed_scanned"
  by (simp add: identify_base64_calls_def init_def mixed_method_def mixed_scanned_def
      scan_method_def scan_insn_def mixed_heap_def target_def IndexOf_def getitem_def)

lemma boundary_scan_wraps:
  "identify_base64_calls WrapsNegative (init p boundary_types boundary_heap) =
     Inr ((init p boundary_types boundary_heap)
            \<lparr>base64_calls := [(hello_method, 1, 0), (init_method, 2, 3)]\<rparr>)"
  by (simp add: identify_base64_calls_def init_def boundary_types_def hello_method_def init_method_def
      scan_method_def scan_insn_def boundary_heap_def hello_heap_def target_def IndexOf_def getitem_def)

lemma boundary_scan_raises:
  "identify_base64_calls RaisesOutOfRange (init p boundary_types boundary_heap) =
     Inl ArgumentOutOfRangeException"
  by (simp add: identify_base64_calls_def init_def boundary_types_def hello_method_def init_method_def
      scan_method_def scan_insn_def boundary_heap_def hello_heap_def target_def IndexOf_def getitem_def)

lemma boundary_expected:
  "expected_matches is_target boundary_types boundary_heap = [(hello_method, 1, 0)]"
  by (simp add: expected_matches_def boundary_types_def hello_method_def init_method_def body_of_def
      is_target_def boundary_heap_def hello_heap_def target_def)

lemma hello_bytes:
  "b64decode (Str (str ''SGVsbG8='')) = Inr [72, 101, 108, 108, 111]"
  "utf8_decode [72, 101, 108, 108, 111] = Inr (str ''Hello'')"
  by (simp_all add: b64decode_def str_def table_a2b_base64_def cons_ok_def)

lemma junk_bytes:
  "b64decode (Str (str ''not-base64!!'')) = Inl Base64Error"
  by (simp add: b64decode_def str_def table_a2b_base64_def)

lemma hello_decode:
  "decode_base64_strings ((init p hello_types hello_heap)\<lparr>base64_calls := [(hello_method, 1, 0)]\<rparr>) =
    ([(Str (str ''SGVsbG8=''), str ''Hello'')],
     (init p hello_types hello_heap)\<lparr>base64_calls := [(hello_method, 1, 0)],
        heap := hello_heap(0 := \<lparr>OpCode = Ldstr, Operand = Str (str ''Hello'')\<rparr>,
                           1 := \<lparr>OpCode = Nop, Operand = target\<rparr>)\<rparr>)"
  by (simp add: decode_base64_strings_def decode_one_def init_def hello_heap_def b64decode_def
      str_def table_a2b_base64_def cons_ok_def blank_def Let_def)

lemma junk_decode:
  "decode_base64_strings ((init p hello_types junk_heap)\<lparr>base64_calls := [(hello_method, 1, 0)]\<rparr>) =
    ([], (init p hello_types junk_heap)\<lparr>base64_calls := [(hello_method, 1, 0)],
        error_log := [(Str (str ''not-base64!!''), Base64Error)]\<rparr>)"
  by (simp add: decode_base64_strings_def decode_one_def init_def junk_heap_def b64decode_def
      str_def table_a2b_base64_def cons_ok_def blank_def Let_def)

lemma spaced_decode:
  "decode_base64_strings spaced_scanned =
     ([(Str (str ''SGVs bG8=''), str ''Hello'')],
      spaced_scanned\<lparr>heap := spaced_heap
          (0 := \<lparr>OpCode = Ldstr, Operand = Str (str ''Hello'')\<rparr>,
           1 := \<lparr>OpCode = Nop, Operand = target\<rparr>)\<rparr>)"
  by (simp add: decode_base64_strings_def decode_one_def init_def spaced_heap_def spaced_scanned_def
      b64decode_def str_def table_a2b_base64_def cons_ok_def blank_def Let_def)

lemma mixed_decode:
  "decode_base64_strings mixed_scanned =
     ([(Str (str ''SGVsbG8=''), str ''Hello'')],
      mixed_scanned\<lparr>heap := mixed_heap
          (0 := \<lparr>OpCode = Ldstr, Operand = Str (str ''Hello'')\<rparr>,
           1 := \<lparr>OpCode = Nop, Operand = target\<rparr>),
        error_log := [(Str (str ''not-base64!!''), Base64Error)]\<rparr>)"
  by (simp add: decode_base64_strings_def decode_one_def init_def mixed_heap_def mixed_scanned_def
      b64decode_def str_def table_a2b_base64_def cons_ok_def blank_def Let_def)

lemma boundary_decode:
  "decode_base64_strings ((init p boundary_types boundary_heap)
            \<lparr>base64_calls := [(hello_method, 1, 0), (init_method, 2, 3)]\<rparr>) =
    ([(Str (str ''SGVsbG8=''), str ''Hello''), (Str (str ''QUJD''), str ''ABC'')],
     (init p boundary_types boundary_heap)
       \<lparr>base64_calls := [(hello_method, 1, 0), (init_method, 2, 3)],
        heap := boundary_heap
          (0 := \<lparr>OpCode = Ldstr, Operand = Str (str ''Hello'')\<rparr>,
           1 := \<lparr>OpCode = Nop, Operand = target\<rparr>,
           3 := \<lparr>OpCode = Ldstr, Operand = Str (str ''ABC'')\<rparr>,
           2 := \<lparr>OpCode = Nop, Operand = target\<rparr>)\<rparr>)"
  by (simp add: decode_base64_strings_def decode_one_def init_def boundary_heap_def hello_heap_def
      b64decode_def str_def table_a2b_base64_def cons_ok_def blank_def Let_def)

lemma hello_main:
  "main hst ''/t/a.exe'' hello_types hello_heap =
     Inr ([PrintTable [(Str (str ''SGVsbG8=''), str ''Hello'')], PrintCount 1,
           ModuleWrite ''/t/a_decoded.exe'', PrintSaved ''/t/a_decoded.exe''],
          snd (decode_base64_strings hello_scanned))"
  by (simp only: main_def hello_scan sum.case hello_decode hello_scanned_def)
     (simp add: save_module_def rsplit1_def init_def Let_def)

lemma junk_main:
  "main hst ''/t/a.exe'' hello_types junk_heap =
     Inr ([], snd (decode_base64_strings junk_scanned))"
  by (simp only: main_def junk_scan sum.case junk_decode junk_scanned_def) simp

subsection \<open>Scanning changes no instruction\<close>

text \<open>
  Claim C6. A scan that returns leaves the operation code and the operand of every
  instruction as they were: the state it returns differs from the one it started in
  only in \<open>base64_calls\<close>. In \<open>main\<close> the scan has returned, with the store still the
  loaded one, before the patcher starts: every match is recorded against unpatched
  instructions.
\<close>

theorem scan_mutates_nothing:
  "(identify_base64_calls hst st = Inr st' \<longrightarrow>
      (\<forall>a. OpCode (heap st' a) = OpCode (heap st a) \<and> Operand (heap st' a) = Operand (heap st a)) \<and>
      heap st' = heap st \<and> error_log st' = error_log st \<and>
      st' = st\<lparr>base64_calls := base64_calls st'\<rparr>) \<and>
   (main hst path types h = Inr (events, st2) \<longrightarrow>
      (\<exists>st1. identify_base64_calls hst (init path types h) = Inr st1 \<and>
             heap st1 = h \<and>
             snd (decode_base64_strings st1) = st2))"
proof (intro conjI impI)
  assume "identify_base64_calls hst st = Inr st'"
  then obtain ms where st': "st' = add_calls st ms"
    by (cases "found hst (file_module st) (heap st)")
       (auto simp: identify_base64_calls_found)
  show "\<forall>a. OpCode (heap st' a) = OpCode (heap st a) \<and> Operand (heap st' a) = Operand (heap st a)"
    by (simp add: st')
  show "heap st' = heap st" by (simp add: st')
  show "error_log st' = error_log st" by (simp add: st')
  show "st' = st\<lparr>base64_calls := base64_calls st'\<rparr>"
    by (simp add: st' add_calls_def)
next
  assume run: "main hst path types h = Inr (events, st2)"
  then obtain st1 where scan: "identify_base64_calls hst (init path types h) = Inr st1"
    by (cases "identify_base64_calls hst (init path types h)") (auto simp: main_def)
  then obtain ms where st1: "st1 = add_calls (init path types h) ms"
    by (cases "found hst (file_module (init path types h)) (heap (init path types h))")
       (auto simp: identify_base64_calls_found)
  have "heap st1 = h" by (simp add: st1 init_def)
  moreover have "snd (decode_base64_strings st1) = st2"
    using run scan by (auto simp: main_def Let_def split: prod.splits if_splits)
  ultimately show "\<exists>st1. identify_base64_calls hst (init path types h) = Inr st1 \<and>
             heap st1 = h \<and> snd (decode_base64_strings st1) = st2"
    using scan by blast
qed

theorem scan_mutates_nothing_witness:
  "identify_base64_calls WrapsNegative (init ''/t/a.exe'' hello_types hello_heap) = Inr hello_scanned \<and>
   heap hello_scanned = heap (init ''/t/a.exe'' hello_types hello_heap) \<and>
   OpCode (heap hello_scanned 1) = Call \<and>
   main WrapsNegative ''/t/a.exe'' hello_types hello_heap =
     Inr ([PrintTable [(Str (str ''SGVsbG8=''), str ''Hello'')], PrintCount 1,
           ModuleWrite ''/t/a_decoded.exe'', PrintSaved ''/t/a_decoded.exe''],
          snd (decode_base64_strings hello_scanned)) \<and>
   (\<exists>st1. identify_base64_calls WrapsNegative (init ''/t/a.exe'' hello_types hello_heap) = Inr st1 \<and>
          heap st1 = hello_heap \<and>
          snd (decode_base64_strings st1) = snd (decode_base64_strings hello_scanned))"
proof -
  have scan: "identify_base64_calls WrapsNegative (init ''/t/a.exe'' hello_types hello_heap) = Inr hello_scanned"
    unfolding hello_scanned_def by (rule hello_scan)
  have call: "OpCode (heap (init ''/t/a.exe'' hello_types hello_heap) 1) = Call"
    by (simp add: init_def hello_heap_def)
  note both = scan_mutates_nothing [of WrapsNegative "init ''/t/a.exe'' hello_types hello_heap"
      hello_scanned "''/t/a.exe''" hello_types hello_heap _ "snd (decode_base64_strings hello_scanned)"]
  from both scan have same: "heap hello_scanned = heap (init ''/t/a.exe'' hello_types hello_heap)"
    by blast
  from both hello_main [of WrapsNegative]
  have "\<exists>st1. identify_base64_calls WrapsNegative (init ''/t/a.exe'' hello_types hello_heap) = Inr st1 \<and>
          heap st1 = hello_heap \<and>
          snd (decode_base64_strings st1) = snd (decode_base64_strings hello_scanned)"
    by blast
  with scan same call hello_main [of WrapsNegative] show ?thesis
    by (simp only: simp_thms)
qed

subsection \<open>Scanning twice\<close>

lemma decode_loop_append:
  "decode_loop (xs @ ys) acc = decode_loop ys (decode_loop xs acc)"
  by (induction xs arbitrary: acc) simp_all

text \<open>
  Claim C10. Nothing resets \<open>base64_calls\<close>: a second scan of the same decoder appends
  the matches of the first scan once more, so every site is listed twice as often, and
  the patcher, which walks the whole list, goes through the matches of the first scan
  twice.
\<close>

theorem rescan_appends_again:
  assumes "identify_base64_calls hst (init path types h) = Inr st1"
  shows "\<exists>st2. identify_base64_calls hst st1 = Inr st2 \<and>
           base64_calls st2 = base64_calls st1 @ base64_calls st1 \<and>
           (\<forall>site. count_list (base64_calls st2) site = 2 * count_list (base64_calls st1) site) \<and>
           decode_base64_strings st2 =
             decode_loop (base64_calls st1) (decode_loop (base64_calls st1) ([], st2))"
proof -
  let ?st0 = "init path types h"
  obtain ms where f: "found hst types h = Inr ms" and st1: "st1 = add_calls ?st0 ms"
    using assms
    by (cases "found hst types h") (auto simp: identify_base64_calls_found init_def)
  have calls: "base64_calls st1 = ms"
    by (simp add: st1 init_def)
  have "file_module st1 = types" "heap st1 = h"
    by (simp_all add: st1 init_def)
  then have again: "identify_base64_calls hst st1 = Inr (add_calls st1 ms)"
    by (simp add: identify_base64_calls_found f)
  have "count_list (ms @ ms) site = 2 * count_list ms site" for site
    by simp
  then show ?thesis
    using again calls
    by (simp add: decode_base64_strings_def decode_loop_append)
qed

theorem rescan_appends_again_witness:
  "identify_base64_calls RaisesOutOfRange (init ''/t/a.exe'' hello_types hello_heap) =
     Inr ((init ''/t/a.exe'' hello_types hello_heap)\<lparr>base64_calls := [(hello_method, 1, 0)]\<rparr>) \<and>
   identify_base64_calls RaisesOutOfRange
     ((init ''/t/a.exe'' hello_types hello_heap)\<lparr>base64_calls := [(hello_method, 1, 0)]\<rparr>) =
     Inr ((init ''/t/a.exe'' hello_types hello_heap)
            \<lparr>base64_calls := [(hello_method, 1, 0), (hello_method, 1, 0)]\<rparr>)"
proof -
  have scan: "identify_base64_calls RaisesOutOfRange (init ''/t/a.exe'' hello_types hello_heap) =
     Inr ((init ''/t/a.exe'' hello_types hello_heap)\<lparr>base64_calls := [(hello_method, 1, 0)]\<rparr>)"
    by (rule hello_scan)
  from rescan_appends_again [OF scan] obtain st2 where
    "identify_base64_calls RaisesOutOfRange
       ((init ''/t/a.exe'' hello_types hello_heap)\<lparr>base64_calls := [(hello_method, 1, 0)]\<rparr>) = Inr st2"
    "base64_calls st2 = [(hello_method, 1, 0), (hello_method, 1, 0)]"
    by auto
  moreover from this(1) have "st2 = add_calls ((init ''/t/a.exe'' hello_types hello_heap)\<lparr>base64_calls := [(hello_method, 1, 0)]\<rparr>) (drop 1 (base64_calls st2))"
    by (cases "found RaisesOutOfRange hello_types hello_heap")
       (auto simp: identify_base64_calls_found init_def)
  ultimately show ?thesis
    using scan by (simp add: add_calls_def init_def)
qed

subsection \<open>Which instructions are matched\<close>

lemma found_insn_other:
  "\<not> is_target (h insn) \<Longrightarrow> found_insn hst m instrs insn h = Inr []"
  by (auto simp: found_insn_def scan_insn_def is_target_def split: operand.splits)

lemma found_insn_target:
  "is_target (h insn) \<Longrightarrow>
   found_insn hst m instrs insn h =
     (case getitem hst instrs (IndexOf instrs insn - 1) of
        Inl e \<Rightarrow> Inl e
      | Inr prev_insn \<Rightarrow> Inr (if OpCode (h prev_insn) = Ldstr then [(m, insn, prev_insn)] else []))"
  by (auto simp: found_insn_def scan_insn_def is_target_def split: sum.splits)

lemma index_from_at:
  "a \<notin> set pre \<Longrightarrow> index_from (pre @ a # post) a i = int (i + length pre)"
  by (induction pre arbitrary: i) auto

lemma IndexOf_at:
  "a \<notin> set pre \<Longrightarrow> IndexOf (pre @ a # post) a = int (length pre)"
  by (simp add: IndexOf_def index_from_at)

lemma getitem_prev:
  assumes "pre \<noteq> []"
  shows "getitem hst (pre @ a # post) (int (length pre) - 1) = Inr (last pre)"
proof -
  from assms have n: "nat (int (length pre) - 1) = length pre - 1" and pos: "0 < length pre"
    by auto
  have "(pre @ a # post) ! (length pre - 1) = pre ! (length pre - 1)"
    using pos by (simp add: nth_append)
  also have "\<dots> = last pre"
    using assms by (simp add: last_conv_nth)
  finally show ?thesis
    using pos by (simp add: getitem_def n)
qed

lemma collect_expected:
  assumes "distinct (pre @ todo)"
    and "pre = [] \<Longrightarrow> todo = [] \<or> \<not> is_target (h (hd todo))"
  shows "collect (found_insn hst m (pre @ todo)) todo h =
           Inr (expected_in_body is_target m h (if pre = [] then None else Some (last pre)) todo)"
  using assms
proof (induction todo arbitrary: pre)
  case Nil
  show ?case by simp
next
  case (Cons a rest)
  have whole: "pre @ a # rest = (pre @ [a]) @ rest" by simp
  from Cons.prems(1) have d: "distinct ((pre @ [a]) @ rest)" and fresh: "a \<notin> set pre"
    by auto
  have rest: "collect (found_insn hst m (pre @ a # rest)) rest h =
                Inr (expected_in_body is_target m h (Some a) rest)"
    using Cons.IH [OF d] by (simp del: append_assoc add: whole)
  show ?case
  proof (cases "is_target (h a)")
    case False
    then show ?thesis
      by (simp add: found_insn_other rest split: option.splits)
  next
    case True
    with Cons.prems(2) have ne: "pre \<noteq> []" by auto
    have "found_insn hst m (pre @ a # rest) a h =
            Inr (if OpCode (h (last pre)) = Ldstr then [(m, a, last pre)] else [])"
      using True by (simp add: found_insn_target IndexOf_at [OF fresh] getitem_prev [OF ne])
    with True ne show ?thesis
      by (simp add: rest)
  qed
qed

lemma found_method_expected:
  assumes "scannable h m"
  shows "found_method hst m h = Inr (expected_in_body is_target m h None (body_of m))"
proof (cases "HasBody m")
  case False
  then show ?thesis by (simp add: found_method_def body_of_def)
next
  case True
  with assms obtain instrs where b: "Body m = Some instrs" and d: "distinct instrs"
    and first: "instrs = [] \<or> \<not> is_target (h (hd instrs))"
    by (auto simp: scannable_def split: option.splits list.splits)
  from collect_expected [of "[]" instrs h hst m] d first
  have "collect (found_insn hst m instrs) instrs h =
          Inr (expected_in_body is_target m h None instrs)"
    by simp
  with True b show ?thesis by (simp add: found_method_def body_of_def)
qed

lemma collect_all:
  assumes "\<And>x. x \<in> set xs \<Longrightarrow> g x h = Inr (f x)"
  shows "collect g xs h = Inr (concat (map f xs))"
  using assms by (induction xs) simp_all

lemma found_expected:
  assumes "list_all (\<lambda>t. list_all (scannable h) (Methods t)) types"
  shows "found hst types h = Inr (expected_matches is_target types h)"
proof -
  have "collect (found_method hst) (Methods t) h =
          Inr (concat (map (\<lambda>m. expected_in_body is_target m h None (body_of m)) (Methods t)))"
    if "t \<in> set types" for t
  proof (rule collect_all)
    fix m assume "m \<in> set (Methods t)"
    with assms that have "scannable h m" by (auto simp: list_all_iff)
    then show "found_method hst m h = Inr (expected_in_body is_target m h None (body_of m))"
      by (rule found_method_expected)
  qed
  then show ?thesis
    unfolding found_def expected_matches_def
    by (intro collect_all
          [where g = "\<lambda>t. collect (found_method hst) (Methods t)"
             and f = "\<lambda>t. concat (map (\<lambda>m. expected_in_body is_target m h None (body_of m)) (Methods t))"])
qed

lemma expected_in_body_sound:
  "(m', c, s) \<in> set (expected_in_body tgt m h prev body) \<Longrightarrow>
   m' = m \<and> tgt (h c) \<and> OpCode (h s) = Ldstr \<and>
   adjacent ((case prev of None \<Rightarrow> [] | Some p \<Rightarrow> [p]) @ body) s c"
proof (induction body arbitrary: prev)
  case Nil
  then show ?case by simp
next
  case (Cons a rest)
  from Cons.prems consider
    (here) p where "prev = Some p" "tgt (h a)" "OpCode (h p) = Ldstr" "(m', c, s) = (m, a, p)"
    | (later) "(m', c, s) \<in> set (expected_in_body tgt m h (Some a) rest)"
    by (auto split: option.splits if_splits)
  then show ?case
  proof cases
    case here
    then show ?thesis by simp
  next
    case later
    from Cons.IH [OF later] have *: "m' = m \<and> tgt (h c) \<and> OpCode (h s) = Ldstr"
      and adj: "adjacent (a # rest) s c" by simp_all
    from adj have "adjacent ((case prev of None \<Rightarrow> [] | Some p \<Rightarrow> [p]) @ a # rest) s c"
      by (cases prev) simp_all
    with * show ?thesis by simp
  qed
qed

text \<open>
  Claim C2, amended. In a module where every method with a body has one (of pairwise
  different instruction objects) and no body starts with a target call, the scanner
  returns and appends exactly the expected matches: one for each instruction whose
  operation is \<open>Call\<close>, whose operand is a member reference (\<open>MemberRef\<close>) with declaring
  type \<open>System.Convert\<close> and name \<open>FromBase64String\<close>, and whose immediately preceding
  instruction is a string-literal load, in instruction order. Every match is such a
  pair; an instruction that is not such a call adds nothing, whatever precedes it; a
  method without a body adds nothing and its body is not read.
\<close>

theorem scan_emits_expected:
  assumes "list_all (\<lambda>t. list_all (scannable (heap st)) (Methods t)) (file_module st)"
  shows "identify_base64_calls hst st =
           Inr (st\<lparr>base64_calls :=
                    base64_calls st @ expected_matches is_target (file_module st) (heap st)\<rparr>) \<and>
         (\<forall>m call_insn str_insn.
            (m, call_insn, str_insn) \<in> set (expected_matches is_target (file_module st) (heap st)) \<longrightarrow>
              OpCode (heap st call_insn) = Call \<and>
              Operand (heap st call_insn) = MemberRef ''System.Convert'' ''FromBase64String'' \<and>
              OpCode (heap st str_insn) = Ldstr \<and>
              adjacent (body_of m) str_insn call_insn) \<and>
         (\<forall>m instrs insn st0.
            \<not> is_target (heap st0 insn) \<longrightarrow> scan_insn hst m instrs insn st0 = Inr st0) \<and>
         (\<forall>m st0. \<not> HasBody m \<longrightarrow>
            scan_method hst m st0 = Inr st0 \<and> expected_in_body is_target m (heap st0) None (body_of m) = [])"
proof -
  have "identify_base64_calls hst st =
           Inr (st\<lparr>base64_calls :=
                    base64_calls st @ expected_matches is_target (file_module st) (heap st)\<rparr>)"
    by (simp add: identify_base64_calls_found found_expected [OF assms] add_calls_def)
  moreover have "OpCode (heap st c) = Call \<and>
              Operand (heap st c) = MemberRef ''System.Convert'' ''FromBase64String'' \<and>
              OpCode (heap st s) = Ldstr \<and> adjacent (body_of m) s c"
    if "(m, c, s) \<in> set (expected_matches is_target (file_module st) (heap st))" for m c s
  proof -
    from that obtain m0 where
      "(m, c, s) \<in> set (expected_in_body is_target m0 (heap st) None (body_of m0))"
      by (auto simp: expected_matches_def)
    from expected_in_body_sound [OF this] show ?thesis
      by (simp add: is_target_def)
  qed
  moreover have "scan_insn hst m instrs insn st0 = Inr st0"
    if "\<not> is_target (heap st0 insn)" for m instrs insn st0
    using that by (simp add: scan_insn_found found_insn_other)
  moreover have "scan_method hst m st0 = Inr st0 \<and>
                 expected_in_body is_target m (heap st0) None (body_of m) = []"
    if "\<not> HasBody m" for m st0
    using that by (simp add: scan_method_def body_of_def)
  ultimately show ?thesis by blast
qed

theorem scan_emits_expected_witness:
  "list_all (\<lambda>t. list_all (scannable (heap mixed_scanned)) (Methods t)) (file_module mixed_scanned) \<and>
   expected_matches is_target (file_module mixed_scanned) (heap mixed_scanned) =
     [(mixed_method, 1, 0), (mixed_method, 3, 2)] \<and>
   identify_base64_calls WrapsNegative mixed_scanned =
     Inr (mixed_scanned\<lparr>base64_calls :=
        [(mixed_method, 1, 0), (mixed_method, 3, 2), (mixed_method, 1, 0), (mixed_method, 3, 2)]\<rparr>) \<and>
   OpCode (heap mixed_scanned 3) = Call \<and>
   adjacent (body_of mixed_method) 2 3 \<and>
   \<not> is_target (heap mixed_scanned 4) \<and>
   scan_insn WrapsNegative mixed_method [0, 1, 2, 3, 4] 4 mixed_scanned = Inr mixed_scanned \<and>
   \<not> HasBody extern_method \<and>
   scan_method WrapsNegative extern_method mixed_scanned = Inr mixed_scanned"
proof -
  have h: "list_all (\<lambda>t. list_all (scannable (heap mixed_scanned)) (Methods t)) (file_module mixed_scanned)"
    by (simp add: mixed_scanned_def init_def scannable_def mixed_method_def mixed_heap_def
        is_target_def)
  have e: "expected_matches is_target (file_module mixed_scanned) (heap mixed_scanned) =
     [(mixed_method, 1, 0), (mixed_method, 3, 2)]"
    by (simp add: mixed_scanned_def init_def expected_matches_def body_of_def mixed_method_def
        mixed_heap_def is_target_def target_def)
  have c: "base64_calls mixed_scanned = [(mixed_method, 1, 0), (mixed_method, 3, 2)]"
    by (simp add: mixed_scanned_def)
  have nt: "\<not> is_target (heap mixed_scanned 4)"
    by (simp add: mixed_scanned_def init_def mixed_heap_def is_target_def)
  have nb: "\<not> HasBody extern_method"
    by (simp add: extern_method_def)
  note T = scan_emits_expected [OF h, of WrapsNegative]
  from T have "identify_base64_calls WrapsNegative mixed_scanned =
           Inr (mixed_scanned\<lparr>base64_calls :=
                    base64_calls mixed_scanned @
                    expected_matches is_target (file_module mixed_scanned) (heap mixed_scanned)\<rparr>)"
    by blast
  then have scan: "identify_base64_calls WrapsNegative mixed_scanned =
     Inr (mixed_scanned\<lparr>base64_calls :=
        [(mixed_method, 1, 0), (mixed_method, 3, 2), (mixed_method, 1, 0), (mixed_method, 3, 2)]\<rparr>)"
    by (simp only: e c append.simps)
  have "(mixed_method, 3, 2) \<in> set (expected_matches is_target (file_module mixed_scanned) (heap mixed_scanned))"
    by (simp only: e) simp
  with T have m: "OpCode (heap mixed_scanned 3) = Call" "adjacent (body_of mixed_method) 2 3"
    by blast+
  from T nt have i: "scan_insn WrapsNegative mixed_method [0, 1, 2, 3, 4] 4 mixed_scanned = Inr mixed_scanned"
    by blast
  from T nb have b: "scan_method WrapsNegative extern_method mixed_scanned = Inr mixed_scanned"
    by blast
  from h e scan m nt i nb b show ?thesis
    by (simp only: simp_thms)
qed

text \<open>
  Claim C2 as stated asks for a match whenever the callee's declaring type and name are
  the target's. The scanner also asks the operand to be a \<open>MemberRef\<close>: a call whose
  operand is a method definition of that name, after a literal load, is no match.
\<close>

theorem scan_misses_local_callee:
  "names_target (local_heap 1) \<and> OpCode (local_heap 0) = Ldstr \<and>
   Body hello_method = Some [0, 1] \<and>
   expected_matches names_target hello_types local_heap = [(hello_method, 1, 0)] \<and>
   base64_calls (init ''/t/a.exe'' hello_types local_heap) = [] \<and>
   identify_base64_calls WrapsNegative (init ''/t/a.exe'' hello_types local_heap) =
     Inr (init ''/t/a.exe'' hello_types local_heap) \<and>
   identify_base64_calls RaisesOutOfRange (init ''/t/a.exe'' hello_types local_heap) =
     Inr (init ''/t/a.exe'' hello_types local_heap)"
  by (simp add: names_target_def local_heap_def hello_method_def hello_types_def
      expected_matches_def body_of_def init_def identify_base64_calls_def scan_method_def
      scan_insn_def)

subsection \<open>A target call as the first instruction\<close>

text \<open>
  Claim C1. The module \<open>boundary_types\<close> has a second method whose body starts with the
  target call and ends with an unrelated literal. The scanner looks up position
  \<open>IndexOf(insn) - 1 = -1\<close>. On a host whose sequences count negative positions from the
  end, it records the call with the literal at the end of the body, and the patcher
  then rewrites that literal; on a host whose indexer raises, the exception leaves the
  whole scan and \<open>main\<close>, and the match of the first method is lost with it. The
  matches the design asks for are those of the first method only.
\<close>

theorem first_instruction_call:
  "identify_base64_calls WrapsNegative (init ''/t/a.exe'' boundary_types boundary_heap) =
     Inr ((init ''/t/a.exe'' boundary_types boundary_heap)
            \<lparr>base64_calls := [(hello_method, 1, 0), (init_method, 2, 3)]\<rparr>) \<and>
   identify_base64_calls RaisesOutOfRange (init ''/t/a.exe'' boundary_types boundary_heap) =
     Inl ArgumentOutOfRangeException \<and>
   main RaisesOutOfRange ''/t/a.exe'' boundary_types boundary_heap =
     Inl ArgumentOutOfRangeException \<and>
   expected_matches is_target boundary_types boundary_heap = [(hello_method, 1, 0)] \<and>
   Body init_method = Some [2, 3] \<and>
   (\<exists>events st.
      main WrapsNegative ''/t/a.exe'' boundary_types boundary_heap = Inr (events, st) \<and>
      boundary_heap 3 = \<lparr>OpCode = Ldstr, Operand = Str (str ''QUJD'')\<rparr> \<and>
      heap st 3 = \<lparr>OpCode = Ldstr, Operand = Str (str ''ABC'')\<rparr> \<and>
      heap st 2 = \<lparr>OpCode = Nop, Operand = target\<rparr>)"
proof -
  have "main RaisesOutOfRange ''/t/a.exe'' boundary_types boundary_heap =
     Inl ArgumentOutOfRangeException"
    by (simp only: main_def boundary_scan_raises sum.case)
  moreover have "\<exists>events st.
      main WrapsNegative ''/t/a.exe'' boundary_types boundary_heap = Inr (events, st) \<and>
      boundary_heap 3 = \<lparr>OpCode = Ldstr, Operand = Str (str ''QUJD'')\<rparr> \<and>
      heap st 3 = \<lparr>OpCode = Ldstr, Operand = Str (str ''ABC'')\<rparr> \<and>
      heap st 2 = \<lparr>OpCode = Nop, Operand = target\<rparr>"
    by (simp only: main_def boundary_scan_wraps sum.case boundary_decode)
       (simp add: boundary_heap_def Let_def)
  moreover have "Body init_method = Some [2, 3]"
    by (simp add: init_method_def)
  ultimately show ?thesis
    using boundary_scan_wraps boundary_scan_raises boundary_expected by blast
qed

section \<open>Properties of the patcher\<close>

subsection \<open>One iteration and the loop\<close>

lemma decode_one_ok:
  assumes "decode_text (Operand (heap st s)) = Inr t"
  shows "decode_one (m, c, s) (ps, st) =
           (ps @ [(Operand (heap st s), t)], st\<lparr>heap := patch (heap st) c s t\<rparr>)"
proof -
  from assms obtain bs where b: "b64decode (Operand (heap st s)) = Inr bs"
    and u: "utf8_decode bs = Inr t"
    by (auto simp: decode_text_def split: sum.splits)
  have upd: "(heap st s)\<lparr>Operand := Str t, OpCode := y\<rparr> = \<lparr>OpCode = y, Operand = Str t\<rparr>" for y
    by (cases "heap st s") simp
  show ?thesis
    by (simp add: decode_one_def b u patch_def Let_def upd)
qed

lemma decode_one_fail:
  assumes "decode_text (Operand (heap st s)) = Inl e"
  shows "decode_one (m, c, s) (ps, st) =
           (ps, st\<lparr>error_log := error_log st @ [(Operand (heap st s), e)]\<rparr>)"
  using assms by (auto simp: decode_one_def decode_text_def Let_def split: sum.splits)

text \<open>
  An iteration touches only the two instructions of its match, and nothing else of the
  decoder.
\<close>

lemma decode_one_frame:
  assumes "a \<notin> set (slots mt)"
  shows "heap (snd (decode_one mt acc)) a = heap (snd acc) a"
proof -
  obtain m c s where mt: "mt = (m, c, s)" by (cases mt)
  obtain ps st where acc: "acc = (ps, st)" by (cases acc)
  from assms mt have "a \<noteq> c" "a \<noteq> s" by auto
  then show ?thesis
    by (cases "decode_text (Operand (heap st s))")
       (simp_all add: mt acc decode_one_ok decode_one_fail patch_def Let_def)
qed

lemma decode_loop_frame:
  assumes "a \<notin> set (slots_of ms)"
  shows "heap (snd (decode_loop ms acc)) a = heap (snd acc) a"
  using assms
proof (induction ms arbitrary: acc)
  case Nil
  show ?case by simp
next
  case (Cons mt ms)
  then have "a \<notin> set (slots mt)" "a \<notin> set (slots_of ms)"
    by (simp_all add: slots_of_def)
  then show ?case
    by (simp add: Cons.IH decode_one_frame)
qed

lemma decode_one_keeps:
  "file_path (snd (decode_one mt acc)) = file_path (snd acc) \<and>
   file_module (snd (decode_one mt acc)) = file_module (snd acc) \<and>
   base64_calls (snd (decode_one mt acc)) = base64_calls (snd acc)"
proof -
  obtain m c s where mt: "mt = (m, c, s)" by (cases mt)
  obtain ps st where acc: "acc = (ps, st)" by (cases acc)
  show ?thesis
    by (cases "decode_text (Operand (heap st s))")
       (simp_all add: mt acc decode_one_ok decode_one_fail)
qed

lemma decode_loop_keeps:
  "file_path (snd (decode_loop ms acc)) = file_path (snd acc) \<and>
   file_module (snd (decode_loop ms acc)) = file_module (snd acc) \<and>
   base64_calls (snd (decode_loop ms acc)) = base64_calls (snd acc)"
  by (induction ms arbitrary: acc) (simp_all add: decode_one_keeps)

text \<open>
  When the matches touch pairwise different instructions, every match meets its
  literal as it was before the loop: the pairs and the log entries are those of the
  initial store, and each match's two instructions end as its own iteration left them.
\<close>

lemma success_cong:
  assumes "\<And>a. a \<in> set (slots mt) \<Longrightarrow> h1 a = h2 a"
  shows "success h1 mt = success h2 mt" "failure h1 mt = failure h2 mt"
proof -
  obtain m c s where mt: "mt = (m, c, s)" by (cases mt)
  have "h1 s = h2 s" by (rule assms) (simp add: mt)
  then show "success h1 mt = success h2 mt" "failure h1 mt = failure h2 mt"
    by (simp_all add: mt split: sum.splits)
qed

lemma successes_cong:
  assumes "\<And>a. a \<in> set (slots_of ms) \<Longrightarrow> h1 a = h2 a"
  shows "successes h1 ms = successes h2 ms" "failures h1 ms = failures h2 ms"
proof -
  have "\<And>mt a. mt \<in> set ms \<Longrightarrow> a \<in> set (slots mt) \<Longrightarrow> h1 a = h2 a"
    using assms by (auto simp: slots_of_def)
  then have "map (success h1) ms = map (success h2) ms" "map (failure h1) ms = map (failure h2) ms"
    by (auto intro: success_cong)
  then show "successes h1 ms = successes h2 ms" "failures h1 ms = failures h2 ms"
    by (simp_all only: successes_def failures_def)
qed

lemma decode_one_outputs:
  "fst (decode_one mt (ps, st)) = ps @ success (heap st) mt"
  "error_log (snd (decode_one mt (ps, st))) = error_log st @ failure (heap st) mt"
proof -
  obtain m c s where mt: "mt = (m, c, s)" by (cases mt)
  show "fst (decode_one mt (ps, st)) = ps @ success (heap st) mt"
    by (cases "decode_text (Operand (heap st s))")
       (simp_all add: mt decode_one_ok decode_one_fail)
  show "error_log (snd (decode_one mt (ps, st))) = error_log st @ failure (heap st) mt"
    by (cases "decode_text (Operand (heap st s))")
       (simp_all add: mt decode_one_ok decode_one_fail)
qed

lemma decode_loop_outputs:
  assumes "distinct (slots_of ms)"
  shows "fst (decode_loop ms (ps, st)) = ps @ successes (heap st) ms \<and>
         error_log (snd (decode_loop ms (ps, st))) = error_log st @ failures (heap st) ms"
  using assms
proof (induction ms arbitrary: ps st)
  case Nil
  show ?case by (simp add: successes_def failures_def)
next
  case (Cons mt ms)
  obtain ps1 st1 where one: "decode_one mt (ps, st) = (ps1, st1)"
    by (cases "decode_one mt (ps, st)")
  from Cons.prems have d: "distinct (slots_of ms)"
    and disj: "set (slots mt) \<inter> set (slots_of ms) = {}"
    by (simp_all add: slots_of_def)
  have same: "heap st1 a = heap st a" if "a \<in> set (slots_of ms)" for a
    using decode_one_frame [of a mt "(ps, st)"] that disj one by auto
  have ps1: "ps1 = ps @ success (heap st) mt"
    and log1: "error_log st1 = error_log st @ failure (heap st) mt"
    using decode_one_outputs [of mt ps st] one by simp_all
  have "successes (heap st1) ms = successes (heap st) ms"
       "failures (heap st1) ms = failures (heap st) ms"
    using same by (auto intro: successes_cong)
  with Cons.IH [OF d, of ps1 st1] show ?case
    by (simp add: one ps1 log1 successes_def failures_def)
qed

lemma decode_loop_at_match:
  assumes "distinct (slots_of ms)" and "(m, c, s) \<in> set ms"
  shows "heap (snd (decode_loop ms (ps, st))) s =
           (case decode_text (Operand (heap st s)) of
              Inl e \<Rightarrow> heap st s
            | Inr t \<Rightarrow> \<lparr>OpCode = Ldstr, Operand = Str t\<rparr>) \<and>
         heap (snd (decode_loop ms (ps, st))) c =
           (case decode_text (Operand (heap st s)) of
              Inl e \<Rightarrow> heap st c
            | Inr t \<Rightarrow> (heap st c)\<lparr>OpCode := Nop\<rparr>)"
  using assms
proof (induction ms arbitrary: ps st)
  case Nil
  then show ?case by simp
next
  case (Cons mt ms)
  obtain ps1 st1 where one: "decode_one mt (ps, st) = (ps1, st1)"
    by (cases "decode_one mt (ps, st)")
  from Cons.prems have d: "distinct (slots_of ms)"
    and disj: "set (slots mt) \<inter> set (slots_of ms) = {}"
    and dm: "distinct (slots mt)"
    by (simp_all add: slots_of_def)
  show ?case
  proof (cases "mt = (m, c, s)")
    case True
    with disj have out: "c \<notin> set (slots_of ms)" "s \<notin> set (slots_of ms)"
      by auto
    from True dm have ne: "c \<noteq> s" by simp
    have after: "heap (snd (decode_loop (mt # ms) (ps, st))) a = heap st1 a"
      if "a \<notin> set (slots_of ms)" for a
      using decode_loop_frame [OF that, of "(ps1, st1)"] by (simp add: one)
    show ?thesis
    proof (cases "decode_text (Operand (heap st s))")
      case (Inl e)
      with one True have "st1 = st\<lparr>error_log := error_log st @ [(Operand (heap st s), e)]\<rparr>"
        by (simp add: decode_one_fail)
      with Inl after out show ?thesis by simp
    next
      case (Inr t)
      with one True have "st1 = st\<lparr>heap := patch (heap st) c s t\<rparr>"
        by (simp add: decode_one_ok)
      with Inr after out ne show ?thesis by (simp add: patch_def Let_def)
    qed
  next
    case False
    with Cons.prems have mem: "(m, c, s) \<in> set ms" by simp
    then have "set (slots (m, c, s)) \<subseteq> set (slots_of ms)"
      unfolding slots_of_def by (simp only: set_concat set_map) blast
    then have "c \<in> set (slots_of ms)" "s \<in> set (slots_of ms)"
      by simp_all
    with disj have "c \<notin> set (slots mt)" "s \<notin> set (slots mt)" by auto
    then have "heap st1 c = heap st c" "heap st1 s = heap st s"
      using decode_one_frame [of _ mt "(ps, st)"] one by auto
    with Cons.IH [OF d mem, of ps1 st1] show ?thesis
      by (cases "decode_text (Operand (heap st s))") (simp_all add: one)
  qed
qed

lemma adjacent_followed:
  "adjacent body a c \<Longrightarrow> is_target (h c) \<Longrightarrow> followed_by_target h body a"
  by (induction body a c rule: adjacent.induct) auto

lemma successes_sound:
  "(x, t) \<in> set (successes h ms) \<Longrightarrow> decode_text x = Inr t"
  by (auto simp: successes_def split: sum.splits)

lemma failures_member:
  "(m, c, s) \<in> set ms \<Longrightarrow> decode_text (Operand (h s)) = Inl e \<Longrightarrow>
   (Operand (h s), e) \<in> set (failures h ms)"
  by (force simp: failures_def)

lemma successes_member:
  "(m, c, s) \<in> set ms \<Longrightarrow> decode_text (Operand (h s)) = Inr t \<Longrightarrow>
   (Operand (h s), t) \<in> set (successes h ms)"
  by (force simp: successes_def)

lemma outcome_count:
  "length (successes h ms) + length (failures h ms) = length ms"
  by (induction ms) (auto simp: successes_def failures_def split: sum.splits)

lemma successes_count:
  "length (successes h ms) = length (filter (decodes h) ms)"
  by (induction ms) (auto simp: successes_def split: sum.splits)

lemma decode_text_Inr:
  "b64decode x = Inr bs \<Longrightarrow> utf8_decode bs = Inr t \<Longrightarrow> decode_text x = Inr t"
  by (simp add: decode_text_def)

lemma decode_text_Inl:
  "b64decode x = Inl e \<or> (\<exists>bs. b64decode x = Inr bs \<and> utf8_decode bs = Inl e) \<Longrightarrow>
   decode_text x = Inl e"
  by (auto simp: decode_text_def)

subsection \<open>A literal that decodes\<close>

text \<open>
  Claim C3. Let the recorded matches touch pairwise different instructions, as the
  matches of one scan do. For every recorded match whose literal decodes (base64, then
  UTF-8), the patcher leaves the literal instruction as a string-literal load of the
  decoded text, the call instruction as a no-operation, and the pair of the encoded and
  the decoded text in its result. In particular the body
  \<open>[Ldstr "SGVsbG8=", Call Convert.FromBase64String]\<close> is scanned and patched to
  \<open>[Ldstr "Hello", Nop]\<close> with the single pair \<open>("SGVsbG8=", "Hello")\<close>. The
  no-operation keeps the operand field the call had.
\<close>

theorem patch_success:
  assumes "distinct (slots_of (base64_calls st))"
    and "(m, call_insn, str_insn) \<in> set (base64_calls st)"
    and "b64decode (Operand (heap st str_insn)) = Inr decoded_bytes"
    and "utf8_decode decoded_bytes = Inr decoded_str"
    and "decode_base64_strings st = (decoded_strings, st')"
  shows "Operand (heap st' str_insn) = Str decoded_str \<and>
         OpCode (heap st' str_insn) = Ldstr \<and>
         OpCode (heap st' call_insn) = Nop \<and>
         (Operand (heap st str_insn), decoded_str) \<in> set decoded_strings \<and>
         (\<exists>st1 st2.
            identify_base64_calls hst (init path hello_types hello_heap) = Inr st1 \<and>
            decode_base64_strings st1 = ([(Str (str ''SGVsbG8=''), str ''Hello'')], st2) \<and>
            map (OpCode \<circ> heap st2) [0, 1] = [Ldstr, Nop] \<and>
            Operand (heap st2 0) = Str (str ''Hello''))"
proof -
  have t: "decode_text (Operand (heap st str_insn)) = Inr decoded_str"
    using assms(3,4) by (rule decode_text_Inr)
  have run: "decode_loop (base64_calls st) ([], st) = (decoded_strings, st')"
    using assms(5) by (simp add: decode_base64_strings_def)
  from decode_loop_at_match [OF assms(1,2), of "[]" st] t run
  have "heap st' str_insn = \<lparr>OpCode = Ldstr, Operand = Str decoded_str\<rparr>"
    and "heap st' call_insn = (heap st call_insn)\<lparr>OpCode := Nop\<rparr>"
    by simp_all
  moreover from decode_loop_outputs [OF assms(1), of "[]" st] run
  have "decoded_strings = successes (heap st) (base64_calls st)"
    by simp
  with successes_member [of m call_insn str_insn "base64_calls st" "heap st" decoded_str] assms(2) t
  have "(Operand (heap st str_insn), decoded_str) \<in> set decoded_strings"
    by simp
  moreover have "\<exists>st1 st2.
            identify_base64_calls hst (init path hello_types hello_heap) = Inr st1 \<and>
            decode_base64_strings st1 = ([(Str (str ''SGVsbG8=''), str ''Hello'')], st2) \<and>
            map (OpCode \<circ> heap st2) [0, 1] = [Ldstr, Nop] \<and>
            Operand (heap st2 0) = Str (str ''Hello'')"
    by (simp only: hello_scan hello_decode sum.inject prod.inject simp_thms ex_simps) simp
  ultimately show ?thesis by simp
qed

theorem patch_success_witness:
  "distinct (slots_of (base64_calls hello_scanned)) \<and>
   (hello_method, 1, 0) \<in> set (base64_calls hello_scanned) \<and>
   b64decode (Operand (heap hello_scanned 0)) = Inr [72, 101, 108, 108, 111] \<and>
   utf8_decode [72, 101, 108, 108, 111] = Inr (str ''Hello'') \<and>
   Operand (heap (snd (decode_base64_strings hello_scanned)) 0) = Str (str ''Hello'') \<and>
   OpCode (heap (snd (decode_base64_strings hello_scanned)) 0) = Ldstr \<and>
   OpCode (heap (snd (decode_base64_strings hello_scanned)) 1) = Nop \<and>
   (Str (str ''SGVsbG8=''), str ''Hello'') \<in> set (fst (decode_base64_strings hello_scanned))"
proof -
  have h1: "distinct (slots_of (base64_calls hello_scanned))"
    by (simp add: hello_scanned_def slots_of_def)
  have h2: "(hello_method, 1, 0) \<in> set (base64_calls hello_scanned)"
    by (simp add: hello_scanned_def)
  have op: "Operand (heap hello_scanned 0) = Str (str ''SGVsbG8='')"
    by (simp add: hello_scanned_def init_def hello_heap_def)
  have h3: "b64decode (Operand (heap hello_scanned 0)) = Inr [72, 101, 108, 108, 111]"
    by (simp only: op hello_bytes)
  have h4: "utf8_decode [72, 101, 108, 108, 111] = Inr (str ''Hello'')"
    by (rule hello_bytes)
  have h5: "decode_base64_strings hello_scanned =
              (fst (decode_base64_strings hello_scanned), snd (decode_base64_strings hello_scanned))"
    by simp
  from patch_success [OF h1 h2 h3 h4 h5] h1 h2 h3 h4 op show ?thesis
    by simp
qed

subsection \<open>A literal that does not decode\<close>

text \<open>
  Claim C4. For every recorded match whose literal does not decode (the base64 step
  raises, or the decoded bytes are not UTF-8), the patcher leaves the literal and the call
  instruction as they were, returns no pair for that literal, logs the operand it read
  together with the exception, and goes on: the result holds the pair of every match
  that decodes and the log the entry of every match that does not, one outcome for each
  recorded match.
\<close>

theorem patch_failure:
  assumes "distinct (slots_of (base64_calls st))"
    and "(m, call_insn, str_insn) \<in> set (base64_calls st)"
    and "b64decode (Operand (heap st str_insn)) = Inl e \<or>
         (\<exists>decoded_bytes. b64decode (Operand (heap st str_insn)) = Inr decoded_bytes \<and>
                          utf8_decode decoded_bytes = Inl e)"
    and "decode_base64_strings st = (decoded_strings, st')"
  shows "heap st' str_insn = heap st str_insn \<and>
         heap st' call_insn = heap st call_insn \<and>
         (\<forall>t. (Operand (heap st str_insn), t) \<notin> set decoded_strings) \<and>
         (Operand (heap st str_insn), e) \<in> set (error_log st') \<and>
         decoded_strings = successes (heap st) (base64_calls st) \<and>
         error_log st' = error_log st @ failures (heap st) (base64_calls st) \<and>
         length decoded_strings + length (failures (heap st) (base64_calls st)) =
           length (base64_calls st)"
proof -
  have t: "decode_text (Operand (heap st str_insn)) = Inl e"
    using assms(3) by (rule decode_text_Inl)
  have run: "decode_loop (base64_calls st) ([], st) = (decoded_strings, st')"
    using assms(4) by (simp add: decode_base64_strings_def)
  from decode_loop_at_match [OF assms(1,2), of "[]" st] t run
  have same: "heap st' str_insn = heap st str_insn" "heap st' call_insn = heap st call_insn"
    by simp_all
  from decode_loop_outputs [OF assms(1), of "[]" st] run
  have out: "decoded_strings = successes (heap st) (base64_calls st)"
    and log: "error_log st' = error_log st @ failures (heap st) (base64_calls st)"
    by simp_all
  have none: "(Operand (heap st str_insn), t') \<notin> set decoded_strings" for t'
    using successes_sound [of "Operand (heap st str_insn)" t' "heap st" "base64_calls st"] t out
    by auto
  have logged: "(Operand (heap st str_insn), e) \<in> set (error_log st')"
    using failures_member [of m call_insn str_insn "base64_calls st" "heap st" e] assms(2) t log
    by simp
  show ?thesis
    using same out log none logged outcome_count [of "heap st" "base64_calls st"]
    by simp
qed

theorem patch_failure_witness:
  "distinct (slots_of (base64_calls junk_scanned)) \<and>
   (hello_method, 1, 0) \<in> set (base64_calls junk_scanned) \<and>
   b64decode (Operand (heap junk_scanned 0)) = Inl Base64Error \<and>
   heap (snd (decode_base64_strings junk_scanned)) 0 = heap junk_scanned 0 \<and>
   heap (snd (decode_base64_strings junk_scanned)) 1 = heap junk_scanned 1 \<and>
   (Str (str ''not-base64!!''), Base64Error) \<in> set (error_log (snd (decode_base64_strings junk_scanned))) \<and>
   fst (decode_base64_strings junk_scanned) = []"
proof -
  have h1: "distinct (slots_of (base64_calls junk_scanned))"
    by (simp add: junk_scanned_def slots_of_def)
  have h2: "(hello_method, 1, 0) \<in> set (base64_calls junk_scanned)"
    by (simp add: junk_scanned_def)
  have op: "Operand (heap junk_scanned 0) = Str (str ''not-base64!!'')"
    by (simp add: junk_scanned_def init_def junk_heap_def)
  have h3: "b64decode (Operand (heap junk_scanned 0)) = Inl Base64Error"
    by (simp only: op junk_bytes)
  then have h3': "b64decode (Operand (heap junk_scanned 0)) = Inl Base64Error \<or>
         (\<exists>decoded_bytes. b64decode (Operand (heap junk_scanned 0)) = Inr decoded_bytes \<and>
                          utf8_decode decoded_bytes = Inl Base64Error)"
    by simp
  have h4: "decode_base64_strings junk_scanned =
              (fst (decode_base64_strings junk_scanned), snd (decode_base64_strings junk_scanned))"
    by simp
  have empty: "fst (decode_base64_strings junk_scanned) = []"
    using junk_decode [of "''/t/a.exe''"] by (simp add: junk_scanned_def)
  from patch_failure [OF h1 h2 h3' h4] have
    "heap (snd (decode_base64_strings junk_scanned)) 0 = heap junk_scanned 0"
    "heap (snd (decode_base64_strings junk_scanned)) 1 = heap junk_scanned 1"
    "(Operand (heap junk_scanned 0), Base64Error) \<in>
       set (error_log (snd (decode_base64_strings junk_scanned)))"
    by blast+
  with h1 h2 h3 empty show ?thesis
    by (simp only: op simp_thms)
qed

subsection \<open>What the patcher leaves alone\<close>

lemma slots_of_filter_subset:
  "set (slots_of (filter P ms)) \<subseteq> set (slots_of ms)"
  by (auto simp: slots_of_def)

lemma decode_loop_untouched:
  assumes d: "distinct (slots_of ms)"
    and a: "a \<notin> set (slots_of (filter (decodes (heap st)) ms))"
  shows "heap (snd (decode_loop ms (ps, st))) a = heap st a"
proof (cases "a \<in> set (slots_of ms)")
  case False
  then show ?thesis using decode_loop_frame [of a ms "(ps, st)"] by simp
next
  case True
  then obtain m c s where mem: "(m, c, s) \<in> set ms" and ac: "a = c \<or> a = s"
    by (auto simp: slots_of_def)
  have "\<not> decodes (heap st) (m, c, s)"
  proof
    assume "decodes (heap st) (m, c, s)"
    with mem have "(m, c, s) \<in> set (filter (decodes (heap st)) ms)" by simp
    then have "set (slots (m, c, s)) \<subseteq> set (slots_of (filter (decodes (heap st)) ms))"
      unfolding slots_of_def by (simp only: set_concat set_map) blast
    with ac a show False by auto
  qed
  then obtain e where "decode_text (Operand (heap st s)) = Inl e"
    by (cases "decode_text (Operand (heap st s))") simp_all
  with decode_loop_at_match [OF d mem, of ps st] ac show ?thesis
    by auto
qed

text \<open>
  Claim C5. Of \<open>N\<close> recorded matches let \<open>M\<close> decode. The patcher returns \<open>M\<close> pairs,
  patches the literal and the call instruction of those \<open>M\<close> matches, and leaves the
  instructions of the other \<open>N - M\<close> matches and every instruction outside the decoding
  matches exactly as they were. When the matches are recorded as the data model
  demands (a literal load immediately followed by a target call), the matches whose
  instructions changed are exactly the decoding ones, and no literal load that is not
  immediately followed by a target call is touched.
\<close>

theorem patch_frame:
  assumes "distinct (slots_of (base64_calls st))"
    and "decode_base64_strings st = (decoded_strings, st')"
  shows "length decoded_strings = length (filter (decodes (heap st)) (base64_calls st)) \<and>
         length (filter (decodes (heap st)) (base64_calls st)) \<le> length (base64_calls st) \<and>
         (\<forall>m call_insn str_insn t.
            (m, call_insn, str_insn) \<in> set (base64_calls st) \<and>
            decode_text (Operand (heap st str_insn)) = Inr t \<longrightarrow>
              heap st' str_insn = \<lparr>OpCode = Ldstr, Operand = Str t\<rparr> \<and>
              heap st' call_insn = (heap st call_insn)\<lparr>OpCode := Nop\<rparr>) \<and>
         (\<forall>m call_insn str_insn.
            (m, call_insn, str_insn) \<in> set (base64_calls st) \<and>
            \<not> decodes (heap st) (m, call_insn, str_insn) \<longrightarrow>
              heap st' str_insn = heap st str_insn \<and> heap st' call_insn = heap st call_insn) \<and>
         (\<forall>a. a \<notin> set (slots_of (filter (decodes (heap st)) (base64_calls st))) \<longrightarrow>
              heap st' a = heap st a) \<and>
         ((\<forall>mt \<in> set (base64_calls st). recorded (heap st) mt) \<longrightarrow>
            filter (changed (heap st) (heap st')) (base64_calls st) =
              filter (decodes (heap st)) (base64_calls st) \<and>
            (\<forall>a. OpCode (heap st a) = Ldstr \<and>
                 (\<forall>mt \<in> set (base64_calls st). \<not> followed_by_target (heap st) (body_of (fst mt)) a) \<longrightarrow>
                 heap st' a = heap st a))"
proof -
  let ?ms = "base64_calls st" and ?h = "heap st"
  have run: "decode_loop ?ms ([], st) = (decoded_strings, st')"
    using assms(2) by (simp add: decode_base64_strings_def)
  then have st': "st' = snd (decode_loop ?ms ([], st))" by simp
  have count: "length decoded_strings = length (filter (decodes ?h) ?ms)"
    using decode_loop_outputs [OF assms(1), of "[]" st] run by (simp add: successes_count)
  have ok: "heap st' s = \<lparr>OpCode = Ldstr, Operand = Str t\<rparr> \<and>
            heap st' c = (?h c)\<lparr>OpCode := Nop\<rparr>"
    if "(m, c, s) \<in> set ?ms" "decode_text (Operand (?h s)) = Inr t" for m c s t
    using decode_loop_at_match [OF assms(1) that(1), of "[]" st] that(2) run by simp
  have bad: "heap st' s = ?h s \<and> heap st' c = ?h c"
    if "(m, c, s) \<in> set ?ms" "\<not> decodes ?h (m, c, s)" for m c s
    using decode_loop_at_match [OF assms(1) that(1), of "[]" st] that(2) run
    by (cases "decode_text (Operand (?h s))") simp_all
  have frame: "heap st' a = ?h a" if "a \<notin> set (slots_of (filter (decodes ?h) ?ms))" for a
    using decode_loop_untouched [OF assms(1) that, of "[]"] st' by simp
  have valid: "filter (changed ?h (heap st')) ?ms = filter (decodes ?h) ?ms \<and>
            (\<forall>a. OpCode (?h a) = Ldstr \<and>
                 (\<forall>mt \<in> set ?ms. \<not> followed_by_target ?h (body_of (fst mt)) a) \<longrightarrow>
                 heap st' a = ?h a)"
    if rec: "\<forall>mt \<in> set ?ms. recorded ?h mt"
  proof
    have "changed ?h (heap st') mt = decodes ?h mt" if mem: "mt \<in> set ?ms" for mt
    proof -
      obtain m c s where mt: "mt = (m, c, s)" by (cases mt)
      from rec mem mt have call: "OpCode (?h c) = Call"
        by (auto simp: is_target_def)
      show ?thesis
      proof (cases "decode_text (Operand (?h s))")
        case (Inl e)
        then have "\<not> decodes ?h (m, c, s)" by simp
        with bad [of m c s] mem mt show ?thesis by simp
      next
        case (Inr t)
        with ok [of m c s t] mem mt have "OpCode (heap st' c) = Nop" by simp
        with call have "heap st' c \<noteq> ?h c" by auto
        with Inr mt show ?thesis by simp
      qed
    qed
    then show "filter (changed ?h (heap st')) ?ms = filter (decodes ?h) ?ms"
      by (simp cong: filter_cong)
    show "\<forall>a. OpCode (?h a) = Ldstr \<and>
                 (\<forall>mt \<in> set ?ms. \<not> followed_by_target ?h (body_of (fst mt)) a) \<longrightarrow>
                 heap st' a = ?h a"
    proof (intro allI impI)
      fix a
      assume a: "OpCode (?h a) = Ldstr \<and>
                 (\<forall>mt \<in> set ?ms. \<not> followed_by_target ?h (body_of (fst mt)) a)"
      have "a \<notin> set (slots_of ?ms)"
      proof
        assume "a \<in> set (slots_of ?ms)"
        then obtain m c s where mem: "(m, c, s) \<in> set ?ms" and ac: "a = c \<or> a = s"
          by (auto simp: slots_of_def)
        from rec mem have r: "is_target (?h c)" "adjacent (body_of m) s c"
          by auto
        from r(1) a have "a \<noteq> c" by (auto simp: is_target_def)
        with ac have "a = s" by simp
        with r have "followed_by_target ?h (body_of m) a"
          by (auto intro: adjacent_followed)
        with a mem show False by force
      qed
      with slots_of_filter_subset [of "decodes ?h" ?ms] show "heap st' a = ?h a"
        by (auto intro: frame)
    qed
  qed
  show ?thesis
    using count ok bad frame valid by (simp add: length_filter_le) blast
qed

theorem patch_frame_witness:
  "distinct (slots_of (base64_calls mixed_scanned)) \<and>
   length (base64_calls mixed_scanned) = 2 \<and>
   length (fst (decode_base64_strings mixed_scanned)) = 1 \<and>
   filter (decodes (heap mixed_scanned)) (base64_calls mixed_scanned) = [(mixed_method, 1, 0)] \<and>
   list_all (recorded (heap mixed_scanned)) (base64_calls mixed_scanned) \<and>
   filter (changed (heap mixed_scanned) (heap (snd (decode_base64_strings mixed_scanned))))
     (base64_calls mixed_scanned) = [(mixed_method, 1, 0)] \<and>
   heap (snd (decode_base64_strings mixed_scanned)) 2 = heap mixed_scanned 2 \<and>
   heap (snd (decode_base64_strings mixed_scanned)) 3 = heap mixed_scanned 3 \<and>
   heap (snd (decode_base64_strings mixed_scanned)) 4 = heap mixed_scanned 4"
proof -
  have h1: "distinct (slots_of (base64_calls mixed_scanned))"
    by (simp add: mixed_scanned_def slots_of_def)
  have h2: "decode_base64_strings mixed_scanned =
              (fst (decode_base64_strings mixed_scanned), snd (decode_base64_strings mixed_scanned))"
    by simp
  have ops: "Operand (heap mixed_scanned 0) = Str (str ''SGVsbG8='')"
    "Operand (heap mixed_scanned 2) = Str (str ''not-base64!!'')"
    by (simp_all add: mixed_scanned_def init_def mixed_heap_def)
  have d: "filter (decodes (heap mixed_scanned)) (base64_calls mixed_scanned) = [(mixed_method, 1, 0)]"
    using ops by (simp add: mixed_scanned_def decode_text_def hello_bytes junk_bytes cons_ok_def)
  have r: "list_all (recorded (heap mixed_scanned)) (base64_calls mixed_scanned)"
    by (simp add: mixed_scanned_def init_def mixed_heap_def is_target_def target_def body_of_def
        mixed_method_def)
  then have r': "\<forall>mt \<in> set (base64_calls mixed_scanned). recorded (heap mixed_scanned) mt"
    by (simp add: list_all_iff)
  have n: "length (base64_calls mixed_scanned) = 2"
    by (simp add: mixed_scanned_def)
  from patch_frame [OF h1 h2] r' d h1 r n show ?thesis
    by (simp add: slots_of_def)
qed

subsection \<open>Characters outside the alphabet\<close>

lemma a2b_base64_skips:
  "a2b_base64 (filter significant s) quad_pos leftchar pads out =
   a2b_base64 s quad_pos leftchar pads out"
  by (induction s arbitrary: quad_pos leftchar pads out)
     (simp_all add: significant_def split: option.splits)

text \<open>
  Claim C9. The base64 step runs without validation: every character that is neither in
  the alphabet nor the padding sign is skipped, so an ASCII literal decodes like the
  literal without those characters. \<open>"SGVs bG8="\<close>, which has a space, decodes to
  \<open>"Hello"\<close>: the match is scanned, the pair is returned and both instructions are
  patched.
\<close>

theorem lenient_base64:
  "(list_all (\<lambda>c. c < 128) s \<longrightarrow> b64decode (Str s) = b64decode (Str (filter significant s))) \<and>
   \<not> list_all significant (str ''SGVs bG8='') \<and>
   b64decode (Str (str ''SGVs bG8='')) = b64decode (Str (str ''SGVsbG8='')) \<and>
   identify_base64_calls hst (init ''/t/a.exe'' hello_types spaced_heap) = Inr spaced_scanned \<and>
   base64_calls spaced_scanned = [(hello_method, 1, 0)] \<and>
   decode_base64_strings spaced_scanned =
     ([(Str (str ''SGVs bG8=''), str ''Hello'')],
      spaced_scanned\<lparr>heap := spaced_heap
          (0 := \<lparr>OpCode = Ldstr, Operand = Str (str ''Hello'')\<rparr>,
           1 := \<lparr>OpCode = Nop, Operand = target\<rparr>)\<rparr>)"
proof -
  have "b64decode (Str s) = b64decode (Str (filter significant s))"
    if "list_all (\<lambda>c. c < 128) s"
  proof -
    from that have "list_all (\<lambda>c. c < 128) (filter significant s)"
      by (simp add: list_all_iff)
    with that show ?thesis
      by (simp add: b64decode_def a2b_base64_skips)
  qed
  moreover have "\<not> list_all significant (str ''SGVs bG8='')"
    by (simp add: str_def significant_def table_a2b_base64_def)
  moreover have "b64decode (Str (str ''SGVs bG8='')) = b64decode (Str (str ''SGVsbG8=''))"
    by (simp add: b64decode_def str_def table_a2b_base64_def)
  moreover have "base64_calls spaced_scanned = [(hello_method, 1, 0)]"
    by (simp add: spaced_scanned_def)
  ultimately show ?thesis
    using spaced_scan spaced_decode by blast
qed

theorem lenient_base64_witness:
  "list_all (\<lambda>c. c < 128) (str ''SGVs bG8='') \<and>
   filter significant (str ''SGVs bG8='') = str ''SGVsbG8='' \<and>
   b64decode (Str (str ''SGVs bG8='')) = Inr [72, 101, 108, 108, 111]"
proof -
  have a: "list_all (\<lambda>c. c < 128) (str ''SGVs bG8='')"
    by (simp add: str_def)
  have f: "filter significant (str ''SGVs bG8='') = str ''SGVsbG8=''"
    by (simp add: str_def significant_def table_a2b_base64_def)
  from lenient_base64 [of "str ''SGVs bG8=''"] a
  have "b64decode (Str (str ''SGVs bG8='')) = b64decode (Str (filter significant (str ''SGVs bG8='')))"
    by blast
  with a f show ?thesis
    by (simp only: hello_bytes simp_thms)
qed

section \<open>The main program\<close>

text \<open>
  Claim C7. \<open>main\<close> prints the table and calls the writer exactly when the patcher
  returned at least one pair; with no pair it prints and writes nothing.
\<close>

theorem no_pairs_no_output:
  assumes "main hst path types h = Inr (events, st)"
  shows "\<exists>st1 decoded_strings.
           identify_base64_calls hst (init path types h) = Inr st1 \<and>
           decode_base64_strings st1 = (decoded_strings, st) \<and>
           (decoded_strings = [] \<longrightarrow> events = []) \<and>
           (decoded_strings \<noteq> [] \<longrightarrow>
              events = [PrintTable decoded_strings, PrintCount (length decoded_strings),
                        ModuleWrite (save_module st), PrintSaved (save_module st)]) \<and>
           ((\<exists>p. ModuleWrite p \<in> set events) = (decoded_strings \<noteq> [])) \<and>
           ((\<exists>t. PrintTable t \<in> set events) = (decoded_strings \<noteq> []))"
proof -
  obtain st1 where scan: "identify_base64_calls hst (init path types h) = Inr st1"
    using assms
    by (cases "identify_base64_calls hst (init path types h)") (auto simp: main_def)
  obtain ds st2 where dec: "decode_base64_strings st1 = (ds, st2)"
    by (cases "decode_base64_strings st1")
  show ?thesis
  proof (cases "ds = []")
    case True
    with assms scan dec have "events = []" "st2 = st"
      by (auto simp: main_def)
    with True scan dec show ?thesis by simp
  next
    case False
    with assms scan dec have
      "events = [PrintTable ds, PrintCount (length ds),
                 ModuleWrite (save_module st), PrintSaved (save_module st)]" "st2 = st"
      by (auto simp: main_def Let_def)
    with False scan dec show ?thesis by auto
  qed
qed

theorem no_pairs_no_output_witness:
  "main WrapsNegative ''/t/a.exe'' hello_types junk_heap =
     Inr ([], snd (decode_base64_strings junk_scanned)) \<and>
   identify_base64_calls WrapsNegative (init ''/t/a.exe'' hello_types junk_heap) = Inr junk_scanned \<and>
   fst (decode_base64_strings junk_scanned) = [] \<and>
   main WrapsNegative ''/t/a.exe'' hello_types hello_heap =
     Inr ([PrintTable [(Str (str ''SGVsbG8=''), str ''Hello'')], PrintCount 1,
           ModuleWrite ''/t/a_decoded.exe'', PrintSaved ''/t/a_decoded.exe''],
          snd (decode_base64_strings hello_scanned)) \<and>
   identify_base64_calls WrapsNegative (init ''/t/a.exe'' hello_types hello_heap) = Inr hello_scanned \<and>
   fst (decode_base64_strings hello_scanned) = [(Str (str ''SGVsbG8=''), str ''Hello'')] \<and>
   save_module (snd (decode_base64_strings hello_scanned)) = ''/t/a_decoded.exe''"
proof -
  have js: "identify_base64_calls WrapsNegative (init ''/t/a.exe'' hello_types junk_heap) = Inr junk_scanned"
    unfolding junk_scanned_def by (rule junk_scan)
  have hs: "identify_base64_calls WrapsNegative (init ''/t/a.exe'' hello_types hello_heap) = Inr hello_scanned"
    unfolding hello_scanned_def by (rule hello_scan)
  from no_pairs_no_output [OF junk_main [of WrapsNegative]] js
  have j: "fst (decode_base64_strings junk_scanned) = [] \<longrightarrow> ([] :: event list) = []"
    by auto
  have jd: "fst (decode_base64_strings junk_scanned) = []"
    unfolding junk_scanned_def by (simp only: junk_decode fst_conv)
  from no_pairs_no_output [OF hello_main [of WrapsNegative]] hs
  obtain ds where ds: "decode_base64_strings hello_scanned = (ds, snd (decode_base64_strings hello_scanned))"
    and ev: "ds \<noteq> [] \<longrightarrow>
       [PrintTable [(Str (str ''SGVsbG8=''), str ''Hello'')], PrintCount 1,
           ModuleWrite ''/t/a_decoded.exe'', PrintSaved ''/t/a_decoded.exe''] =
       [PrintTable ds, PrintCount (length ds),
        ModuleWrite (save_module (snd (decode_base64_strings hello_scanned))),
        PrintSaved (save_module (snd (decode_base64_strings hello_scanned)))]"
    by auto
  have hd: "fst (decode_base64_strings hello_scanned) = [(Str (str ''SGVsbG8=''), str ''Hello'')]"
    unfolding hello_scanned_def by (simp only: hello_decode fst_conv)
  with ds have "ds = [(Str (str ''SGVsbG8=''), str ''Hello'')]"
    by (metis fst_conv)
  with ev have "save_module (snd (decode_base64_strings hello_scanned)) = ''/t/a_decoded.exe''"
    by simp
  with js hs jd hd show ?thesis
    using junk_main [of WrapsNegative] hello_main [of WrapsNegative] by (simp only: simp_thms)
qed

section \<open>The name of the output file\<close>

lemma dirname_basename: "dirname path @ basename path = path"
proof -
  let ?t = "takeWhile (\<lambda>c. c \<noteq> CHR ''/'') (rev path)"
  let ?d = "dropWhile (\<lambda>c. c \<noteq> CHR ''/'') (rev path)"
  have "rev ?d @ rev ?t = rev (?t @ ?d)"
    by (simp only: rev_append)
  also have "\<dots> = path"
    by (simp only: takeWhile_dropWhile_id rev_rev_ident)
  finally show ?thesis
    by (simp only: dirname_def basename_def)
qed

lemma rsplit1_none: "sep \<notin> set s \<Longrightarrow> rsplit1 sep s = [s]"
  by (simp add: rsplit1_def)

lemma rsplit1_some:
  assumes "sep \<in> set s"
  shows "\<exists>a b. rsplit1 sep s = [a, b] \<and> s = a @ sep # b \<and> sep \<notin> set b"
proof -
  let ?P = "\<lambda>c. c \<noteq> sep"
  let ?t = "takeWhile ?P (rev s)" and ?d = "dropWhile ?P (rev s)"
  from assms have "?d \<noteq> []" by (auto simp: dropWhile_eq_Nil_conv)
  moreover then have "hd ?d = sep" using hd_dropWhile [of ?P "rev s"] by simp
  ultimately have d: "?d = sep # tl ?d" by (cases ?d) auto
  have "rev s = ?t @ ?d" by simp
  then have "rev s = ?t @ sep # tl ?d" using d by simp
  then have "s = rev (tl ?d) @ sep # rev ?t"
    by (metis rev_append rev.simps(2) rev_rev_ident append_Cons append_Nil append_assoc)
  moreover have "sep \<notin> set (rev ?t)"
    using set_takeWhileD [of sep ?P "rev s"] by auto
  ultimately show ?thesis using assms by (auto simp: rsplit1_def)
qed

lemma rsplit1_split:
  assumes "sep \<notin> set y"
  shows "rsplit1 sep (x @ sep # y) = [x, y]"
proof -
  let ?P = "\<lambda>c. c \<noteq> sep"
  have t: "takeWhile ?P (rev y @ sep # rev x) = rev y"
    by (subst takeWhile_append2) (use assms in auto)
  have d: "dropWhile ?P (rev y @ sep # rev x) = sep # rev x"
    by (subst dropWhile_append2) (use assms in auto)
  show ?thesis
    by (simp add: rsplit1_def t d)
qed

text \<open>
  The output name is never the input path, so the input file is not overwritten.
\<close>

lemma save_module_new_name: "save_module st \<noteq> file_path st"
proof (cases "CHR ''.'' \<in> set (file_path st)")
  case False
  then have "save_module st = file_path st @ ''_decoded.exe''"
    by (simp add: save_module_def rsplit1_none)
  then show ?thesis by simp
next
  case True
  from rsplit1_some [OF True] obtain a b where
    r: "rsplit1 CHR ''.'' (file_path st) = [a, b]" and p: "file_path st = a @ CHR ''.'' # b"
    by blast
  then have "save_module st = a @ ''_decoded.'' @ b"
    by (simp add: save_module_def)
  then have "length (save_module st) \<noteq> length (file_path st)"
    using p by simp
  then show ?thesis by auto
qed

text \<open>
  When the file name has a dot, or the path has none at all, the output name is the
  sibling the design asks for.
\<close>

lemma save_module_sibling:
  assumes "CHR ''.'' \<in> set (basename (file_path st)) \<or> CHR ''.'' \<notin> set (file_path st)"
  shows "save_module st = decoded_name_spec (file_path st)"
proof (cases "CHR ''.'' \<in> set (basename (file_path st))")
  case True
  from rsplit1_some [OF True] obtain a b where
    r: "rsplit1 CHR ''.'' (basename (file_path st)) = [a, b]"
    and b: "basename (file_path st) = a @ CHR ''.'' # b" and nb: "CHR ''.'' \<notin> set b"
    by blast
  have "file_path st = (dirname (file_path st) @ a) @ CHR ''.'' # b"
    using dirname_basename [of "file_path st"] b by simp
  then have "rsplit1 CHR ''.'' (file_path st) = [dirname (file_path st) @ a, b]"
    using rsplit1_split [OF nb, of "dirname (file_path st) @ a"] by simp
  with r show ?thesis
    by (simp add: save_module_def decoded_name_spec_def)
next
  case False
  with assms have no: "CHR ''.'' \<notin> set (file_path st)" by simp
  have "save_module st = file_path st @ ''_decoded.exe''"
    using no by (simp add: save_module_def rsplit1_none)
  moreover have "decoded_name_spec (file_path st) =
      dirname (file_path st) @ basename (file_path st) @ ''_decoded.exe''"
    using False by (simp add: decoded_name_spec_def rsplit1_none)
  ultimately show ?thesis
    using dirname_basename [of "file_path st"] by (metis append_assoc)
qed

text \<open>
  Claim C8. \<open>save_module\<close> splits the whole path at its last dot, not the file name.
  For a file without extension in a directory whose name has a dot, the result is a
  path into another directory, not the sibling \<open><stem>_decoded.exe\<close>.
\<close>

theorem save_module_dotted_directory:
  "file_path (init ''/opt/app.v2/tool'' ts h) = ''/opt/app.v2/tool'' \<and>
   save_module (init ''/opt/app.v2/tool'' ts h) = ''/opt/app_decoded.v2/tool'' \<and>
   decoded_name_spec ''/opt/app.v2/tool'' = ''/opt/app.v2/tool_decoded.exe'' \<and>
   dirname (save_module (init ''/opt/app.v2/tool'' ts h)) = ''/opt/app_decoded.v2/'' \<and>
   dirname ''/opt/app.v2/tool'' = ''/opt/app.v2/''"
  by (simp add: init_def save_module_def rsplit1_def decoded_name_spec_def dirname_def basename_def)

section \<open>The matches of one scan\<close>

text \<open>
  The theorems about the patcher take matches that touch pairwise different
  instructions, and for one clause matches that satisfy the invariant of the data
  model. One scan of a loaded module, whose instruction objects are all different,
  records such matches: the first on either host, the second when the module is
  \<open>scannable\<close>.
\<close>

lemma slots_of_simps [simp]:
  "slots_of [] = []"
  "slots_of ((m, c, s) # ms) = c # s # slots_of ms"
  "slots_of (xs @ ys) = slots_of xs @ slots_of ys"
  by (simp_all add: slots_of_def)

lemma set_slots_of:
  "set (slots_of ms) = call_of ` set ms \<union> lit_of ` set ms"
proof (induction ms)
  case Nil
  show ?case by simp
next
  case (Cons mt ms)
  obtain m c s where mt: "mt = (m, c, s)" by (cases mt)
  show ?case unfolding mt by (simp add: Cons.IH) blast
qed

lemma distinct_slots_of:
  assumes "distinct (map call_of ms)" and "distinct (map lit_of ms)"
    and "call_of ` set ms \<inter> lit_of ` set ms = {}"
  shows "distinct (slots_of ms)"
  using assms
proof (induction ms)
  case Nil
  show ?case by simp
next
  case (Cons mt ms)
  obtain m c s where mt: "mt = (m, c, s)" by (cases mt)
  from Cons.prems have "distinct (slots_of ms)"
    by (intro Cons.IH) auto
  moreover from Cons.prems have "c \<noteq> s" "c \<notin> set (slots_of ms)" "s \<notin> set (slots_of ms)"
    by (auto simp: mt set_slots_of)
  ultimately show ?case by (simp add: mt)
qed

lemma getitem_member:
  "getitem hst xs i = Inr p \<Longrightarrow> p \<in> set xs"
  by (cases hst) (auto simp: getitem_def Let_def split: if_splits)

lemma index_from_range:
  "a \<in> set xs \<Longrightarrow> \<exists>k < length xs. index_from xs a i = int (i + k) \<and> xs ! k = a"
proof (induction xs arbitrary: i)
  case Nil
  then show ?case by simp
next
  case (Cons x xs)
  show ?case
  proof (cases "x = a")
    case True
    then show ?thesis by auto
  next
    case False
    with Cons.prems have "a \<in> set xs" by simp
    from Cons.IH [OF this, of "Suc i"] obtain k where
      "k < length xs" "index_from xs a (Suc i) = int (Suc i + k)" "xs ! k = a"
      by blast
    with False show ?thesis
      by (intro exI [of _ "Suc k"]) simp
  qed
qed

lemma getitem_is_prev:
  assumes "a \<in> set instrs" and "getitem hst instrs (IndexOf instrs a - 1) = Inr p"
  shows "p = prev_of instrs a"
proof -
  from index_from_range [OF assms(1), of 0] obtain k where
    k: "k < length instrs" "IndexOf instrs a = int k"
    by (auto simp: IndexOf_def)
  let ?n = "int (length instrs)"
  show ?thesis
  proof (cases "k = 0")
    case True
    with k have "(IndexOf instrs a - 1) mod ?n = ?n - 1"
      by (simp add: zmod_minus1)
    moreover from True k assms(2) have "p = instrs ! nat (?n + (- 1))"
      by (cases hst) (auto simp: getitem_def Let_def split: if_splits)
    ultimately show ?thesis by (simp add: prev_of_def)
  next
    case False
    with k have "(IndexOf instrs a - 1) mod ?n = int k - 1"
      by simp
    moreover from False k assms(2) have "p = instrs ! nat (int k - 1)"
      by (cases hst) (auto simp: getitem_def Let_def split: if_splits)
    ultimately show ?thesis by (simp add: prev_of_def)
  qed
qed

lemma IndexOf_nth:
  assumes "distinct instrs" and "k < length instrs"
  shows "IndexOf instrs (instrs ! k) = int k"
proof -
  from assms(2) have "instrs = take k instrs @ instrs ! k # drop (Suc k) instrs"
    by (simp add: id_take_nth_drop)
  moreover from assms have "instrs ! k \<notin> set (take k instrs)"
    by (metis calculation distinct.simps(2) distinct_append disjoint_insert(1) list.set(2))
  ultimately have "IndexOf instrs (instrs ! k) = int (length (take k instrs))"
    using IndexOf_at [of "instrs ! k" "take k instrs" "drop (Suc k) instrs"] by simp
  with assms(2) show ?thesis by simp
qed

text \<open>
  In a body of different instruction objects, different instructions have different
  previous ones, also when the first instruction wraps around to the last.
\<close>

lemma prev_of_inj:
  assumes "distinct instrs"
  shows "inj_on (prev_of instrs) (set instrs)"
proof (rule inj_onI)
  fix a b
  assume "a \<in> set instrs" "b \<in> set instrs" and eq: "prev_of instrs a = prev_of instrs b"
  then obtain i j where i: "i < length instrs" "a = instrs ! i"
    and j: "j < length instrs" "b = instrs ! j"
    by (auto simp: in_set_conv_nth)
  let ?n = "int (length instrs)"
  from i(1) have n: "0 < ?n" by (cases instrs) simp_all
  have ia: "IndexOf instrs a = int i" and jb: "IndexOf instrs b = int j"
    using i j assms by (simp_all add: IndexOf_nth)
  let ?pi = "nat ((int i - 1) mod ?n)" and ?pj = "nat ((int j - 1) mod ?n)"
  have "?pi < length instrs" "?pj < length instrs"
    using n by (simp_all add: nat_less_iff)
  with eq assms have "?pi = ?pj"
    by (simp add: prev_of_def ia jb nth_eq_iff_index_eq)
  then have "(int i - 1) mod ?n = (int j - 1) mod ?n"
    using n by (metis nat_eq_iff2 pos_mod_sign)
  then have "int i mod ?n = int j mod ?n"
    by (metis mod_diff_cong mod_add_cong diff_add_cancel)
  with i j have "i = j" by simp
  with i j show "a = b" by simp
qed

lemma found_insn_shape:
  assumes "found_insn hst m instrs a h = Inr ms"
  shows "ms = [] \<or>
         (\<exists>p. ms = [(m, a, p)] \<and> is_target (h a) \<and> OpCode (h p) = Ldstr \<and>
              getitem hst instrs (IndexOf instrs a - 1) = Inr p)"
proof (cases "is_target (h a)")
  case False
  with assms show ?thesis by (simp add: found_insn_other)
next
  case True
  with assms show ?thesis
    by (auto simp: found_insn_target split: sum.splits if_splits)
qed

lemma collect_found_insn:
  assumes "collect (found_insn hst m instrs) todo h = Inr ms" and "distinct todo"
  shows "distinct (map call_of ms) \<and>
         (\<forall>mt \<in> set ms. \<exists>c s. mt = (m, c, s) \<and> c \<in> set todo \<and> is_target (h c) \<and>
             OpCode (h s) = Ldstr \<and> getitem hst instrs (IndexOf instrs c - 1) = Inr s)"
  using assms
proof (induction todo arbitrary: ms)
  case Nil
  then show ?case by simp
next
  case (Cons a todo)
  from Cons.prems(1) obtain ms1 ms2 where
    one: "found_insn hst m instrs a h = Inr ms1"
    and rest: "collect (found_insn hst m instrs) todo h = Inr ms2"
    and ms: "ms = ms1 @ ms2"
    by (auto split: sum.splits)
  from Cons.prems(2) have d: "distinct todo" and fresh: "a \<notin> set todo" by simp_all
  from Cons.IH [OF rest d] have
    d2: "distinct (map call_of ms2)"
    and all2: "\<forall>mt \<in> set ms2. \<exists>c s. mt = (m, c, s) \<and> c \<in> set todo \<and> is_target (h c) \<and>
             OpCode (h s) = Ldstr \<and> getitem hst instrs (IndexOf instrs c - 1) = Inr s"
    by blast+
  from all2 have calls2: "call_of ` set ms2 \<subseteq> set todo" by force
  from found_insn_shape [OF one] show ?case
  proof
    assume "ms1 = []"
    with ms d2 all2 show ?thesis by auto
  next
    assume "\<exists>p. ms1 = [(m, a, p)] \<and> is_target (h a) \<and> OpCode (h p) = Ldstr \<and>
              getitem hst instrs (IndexOf instrs a - 1) = Inr p"
    then obtain p where p: "ms1 = [(m, a, p)]" "is_target (h a)" "OpCode (h p) = Ldstr"
      "getitem hst instrs (IndexOf instrs a - 1) = Inr p" by blast
    from calls2 fresh have "a \<notin> call_of ` set ms2" by auto
    with d2 have "distinct (map call_of ms)" by (simp add: ms p(1))
    moreover have "\<forall>mt \<in> set ms. \<exists>c s. mt = (m, c, s) \<and> c \<in> set (a # todo) \<and> is_target (h c) \<and>
             OpCode (h s) = Ldstr \<and> getitem hst instrs (IndexOf instrs c - 1) = Inr s"
      using all2 p by (auto simp: ms)
    ultimately show ?thesis by blast
  qed
qed

lemma found_method_slots:
  assumes "found_method hst m h = Inr ms" and "distinct (body_of m)"
  shows "distinct (slots_of ms) \<and> set (slots_of ms) \<subseteq> set (body_of m)"
proof (cases "HasBody m")
  case False
  with assms show ?thesis by (simp add: found_method_def)
next
  case True
  with assms(1) obtain instrs where b: "Body m = Some instrs"
    and c: "collect (found_insn hst m instrs) instrs h = Inr ms"
    by (auto simp: found_method_def split: option.splits)
  from True b have body: "body_of m = instrs" by (simp add: body_of_def)
  with assms(2) have d: "distinct instrs" by simp
  from collect_found_insn [OF c d] have
    dc: "distinct (map call_of ms)"
    and all: "\<forall>mt \<in> set ms. \<exists>c s. mt = (m, c, s) \<and> c \<in> set instrs \<and> is_target (h c) \<and>
             OpCode (h s) = Ldstr \<and> getitem hst instrs (IndexOf instrs c - 1) = Inr s"
    by blast+
  have lit: "lit_of mt = prev_of instrs (call_of mt)" if "mt \<in> set ms" for mt
    using all that getitem_is_prev by fastforce
  then have "map lit_of ms = map (prev_of instrs) (map call_of ms)"
    by simp
  moreover have "inj_on (prev_of instrs) (set (map call_of ms))"
  proof (rule inj_on_subset [OF prev_of_inj [OF d]])
    show "set (map call_of ms) \<subseteq> set instrs" using all by force
  qed
  ultimately have dl: "distinct (map lit_of ms)"
    using dc by (simp only: distinct_map)
  have apart: "call_of ` set ms \<inter> lit_of ` set ms = {}"
  proof (rule ccontr)
    assume "call_of ` set ms \<inter> lit_of ` set ms \<noteq> {}"
    then obtain x where "x \<in> call_of ` set ms" "x \<in> lit_of ` set ms" by blast
    then obtain mt1 mt2 where mts: "mt1 \<in> set ms" "x = call_of mt1" "mt2 \<in> set ms" "x = lit_of mt2"
      by blast
    from all mts(1) obtain c1 s1 where "mt1 = (m, c1, s1)" "is_target (h c1)" by blast
    moreover from all mts(3) obtain c2 s2 where "mt2 = (m, c2, s2)" "OpCode (h s2) = Ldstr" by blast
    ultimately have "is_target (h x)" "OpCode (h x) = Ldstr"
      using mts(2,4) by simp_all
    then show False by (simp add: is_target_def)
  qed
  have "set (slots_of ms) \<subseteq> set instrs"
    using all getitem_member by (fastforce simp: set_slots_of)
  with distinct_slots_of [OF dc dl apart] body show ?thesis by simp
qed

lemma found_methods_slots:
  assumes "collect (found_method hst) ms h = Inr found_ms"
    and "distinct (concat (map body_of ms))"
  shows "distinct (slots_of found_ms) \<and> set (slots_of found_ms) \<subseteq> set (concat (map body_of ms))"
  using assms
proof (induction ms arbitrary: found_ms)
  case Nil
  then show ?case by simp
next
  case (Cons m ms)
  from Cons.prems(1) obtain f1 f2 where
    one: "found_method hst m h = Inr f1"
    and rest: "collect (found_method hst) ms h = Inr f2"
    and f: "found_ms = f1 @ f2"
    by (auto split: sum.splits)
  from Cons.prems(2) have d1: "distinct (body_of m)" and d2: "distinct (concat (map body_of ms))"
    and apart: "set (body_of m) \<inter> set (concat (map body_of ms)) = {}"
    by simp_all
  from found_method_slots [OF one d1] Cons.IH [OF rest d2] apart show ?case
    unfolding f by (simp only: slots_of_simps distinct_append set_append concat.simps list.map) blast
qed

lemma found_slots:
  assumes "found hst types h = Inr ms" and "distinct (all_insns types)"
  shows "distinct (slots_of ms) \<and> set (slots_of ms) \<subseteq> set (all_insns types)"
  using assms unfolding found_def all_insns_def
proof (induction types arbitrary: ms)
  case Nil
  then show ?case by simp
next
  case (Cons t ts)
  from Cons.prems(1) obtain f1 f2 where
    one: "collect (found_method hst) (Methods t) h = Inr f1"
    and rest: "collect (\<lambda>t. collect (found_method hst) (Methods t)) ts h = Inr f2"
    and f: "ms = f1 @ f2"
    by (auto split: sum.splits)
  from Cons.prems(2) have d1: "distinct (concat (map body_of (Methods t)))"
    and d2: "distinct (concat (map (\<lambda>t. concat (map body_of (Methods t))) ts))"
    and apart: "set (concat (map body_of (Methods t))) \<inter>
                set (concat (map (\<lambda>t. concat (map body_of (Methods t))) ts)) = {}"
    by simp_all
  from found_methods_slots [OF one d1] Cons.IH [OF rest d2] apart show ?case
    unfolding f by (simp only: slots_of_simps distinct_append set_append concat.simps list.map) blast
qed

text \<open>
  The matches of one scan touch pairwise different instructions.
\<close>

lemma scan_slots_distinct:
  assumes "identify_base64_calls hst (init path types h) = Inr st"
    and "distinct (all_insns types)"
  shows "distinct (slots_of (base64_calls st))"
proof -
  from assms(1) obtain ms where f: "found hst types h = Inr ms"
    and st: "st = add_calls (init path types h) ms"
    by (cases "found hst types h") (auto simp: identify_base64_calls_found init_def)
  from found_slots [OF f assms(2)] st show ?thesis
    by (simp add: init_def)
qed

text \<open>
  The matches of one scan of a scannable module satisfy the invariant of the data model.
\<close>

lemma expected_matches_recorded:
  assumes "mt \<in> set (expected_matches is_target types h)"
  shows "recorded h mt"
proof -
  obtain m c s where mt: "mt = (m, c, s)" by (cases mt)
  with assms obtain m0 where
    "(m, c, s) \<in> set (expected_in_body is_target m0 h None (body_of m0))"
    by (auto simp: expected_matches_def)
  from expected_in_body_sound [OF this] show ?thesis
    by (simp add: mt)
qed

lemma scan_matches_recorded:
  assumes "identify_base64_calls hst (init path types h) = Inr st"
    and "list_all (\<lambda>t. list_all (scannable h) (Methods t)) types"
  shows "list_all (recorded (heap st)) (base64_calls st)"
proof -
  from assms have "st = add_calls (init path types h) (expected_matches is_target types h)"
    by (simp add: identify_base64_calls_found found_expected init_def)
  then show ?thesis
    by (simp add: init_def list_all_iff expected_matches_recorded)
qed

end
